theory Spec2Isabelle
  imports
    Complex_Main
    "HOL-Library.AList"
    "HOL-Library.Sublist"
    "HOL-Library.Char_ord"
    "HOL-Library.List_Lexorder"
    "HOL-Library.Product_Lexorder"
begin

section \<open>Interconnection diagrams: the layout engine of interconnection\_drawio.py\<close>

text \<open>
  The program reads a wiring table, drops incomplete rows, groups the remaining rows by
  module, connector and pin on a LEFT and a RIGHT side, places one box per connector on
  each side, and routes one wire per connection through lane offsets.

  Conventions of the embedding:
  \<^item> a Python \<open>dict\<close> is an association list in insertion order; \<open>d[k] = v\<close> is
    \<open>AList.update\<close> (replace in place, else append), \<open>k in d\<close> and \<open>d[k]\<close> are \<open>map_of\<close>;
  \<^item> a string is a list of bytes, compared lexicographically as Python compares code
    points (so the model is exact on ASCII text);
  \<^item> Python integers are \<open>int\<close>; the quotient \<open>weighted_sum / total_weight\<close> is the exact
    rational (its rounding to a double is not modelled);
  \<^item> the builtin \<open>float(pin)\<close> is a parameter \<open>to_float\<close>: \<open>None\<close> where it raises, else the
    value read: a number (as an exact rational, its rounding to a double is not modelled),
    an infinity, or NaN;
  \<^item> a spreadsheet cell is \<open>None\<close> where pandas reads it as missing (NaN) and otherwise
    carries the text \<open>str\<close> gives for it.
\<close>

subsection \<open>Strings\<close>

definition is_space :: "char \<Rightarrow> bool" where
  "is_space c = (let n = (of_char c :: nat) in (9 \<le> n \<and> n \<le> 13) \<or> (28 \<le> n \<and> n \<le> 32))"

definition strip :: "string \<Rightarrow> string" where
  "strip s = rev (dropWhile is_space (rev (dropWhile is_space s)))"

definition lower_char :: "char \<Rightarrow> char" where
  "lower_char c = (let n = (of_char c :: nat) in if 65 \<le> n \<and> n \<le> 90 then char_of (n + 32) else c)"

definition lower :: "string \<Rightarrow> string" where
  "lower s = map lower_char s"

text \<open>\<open>str(n)\<close> for a row index.\<close>

definition digit_char :: "nat \<Rightarrow> char" where
  "digit_char d = char_of (48 + d)"

function str_nat :: "nat \<Rightarrow> string" where
  "str_nat n = (if n < 10 then [digit_char n] else str_nat (n div 10) @ [digit_char (n mod 10)])"
  by pat_completeness auto
termination
  by (relation "measure id") auto

declare str_nat.simps [simp del]

text \<open>\<open>', '.join(xs)\<close>\<close>

fun join :: "string \<Rightarrow> string list \<Rightarrow> string" where
  "join sep [] = []"
| "join sep [s] = s"
| "join sep (s # t # ts) = s @ sep @ join sep (t # ts)"

subsection \<open>The input table and its filtering (lines 31--64)\<close>

type_synonym cell = "string option"

record raw_row =
  Modulo1 :: cell
  Conector1 :: cell
  Pin1 :: cell
  Senal1 :: cell
  Senal2 :: cell
  Pin2 :: cell
  Conector2 :: cell
  Modulo2 :: cell

text \<open>
  The frame as \<open>read_excel\<close> returns it: the column names, and for each row the cells under
  the eight required names. When a required column is missing the run stops at line 42,
  before any cell is read.
\<close>

record table =
  columns :: "string list"
  rows :: "raw_row list"

text \<open>The two column names with a tilde are written in UTF-8 bytes.\<close>

definition senal :: "string \<Rightarrow> string" where
  "senal n = ''Se'' @ [char_of (0xC3 :: nat), char_of (0xB1 :: nat)] @ ''al'' @ n"

definition required_cols :: "string list" where
  "required_cols = [''Modulo1'', ''Conector1'', ''Pin1'', senal ''1'',
                    senal ''2'', ''Pin2'', ''Conector2'', ''Modulo2'']"

definition missing_cols :: "table \<Rightarrow> string list" where
  "missing_cols t = filter (\<lambda>col. col \<notin> set (map strip (columns t))) required_cols"

text \<open>Lines 45--58, one filter per statement of the source, in its order.\<close>

definition dropna_pins :: "raw_row list \<Rightarrow> raw_row list" where
  "dropna_pins df = filter (\<lambda>r. Pin1 r \<noteq> None \<and> Pin2 r \<noteq> None) df"

definition astype_str_strip :: "raw_row list \<Rightarrow> raw_row list" where
  "astype_str_strip df =
     map (\<lambda>r. r\<lparr>Pin1 := map_option strip (Pin1 r), Pin2 := map_option strip (Pin2 r)\<rparr>) df"

definition drop_empty_pins :: "raw_row list \<Rightarrow> raw_row list" where
  "drop_empty_pins df =
     filter (\<lambda>r. Pin2 r \<noteq> Some []) (filter (\<lambda>r. Pin1 r \<noteq> Some []) df)"

definition drop_nan_pins :: "raw_row list \<Rightarrow> raw_row list" where
  "drop_nan_pins df =
     filter (\<lambda>r. map_option lower (Pin2 r) \<noteq> Some ''nan'')
       (filter (\<lambda>r. map_option lower (Pin1 r) \<noteq> Some ''nan'') df)"

definition dropna_names :: "raw_row list \<Rightarrow> raw_row list" where
  "dropna_names df =
     filter (\<lambda>r. Modulo1 r \<noteq> None \<and> Conector1 r \<noteq> None \<and> Modulo2 r \<noteq> None \<and> Conector2 r \<noteq> None) df"

definition filter_rows :: "raw_row list \<Rightarrow> raw_row list" where
  "filter_rows df = dropna_names (drop_nan_pins (drop_empty_pins (astype_str_strip (dropna_pins df))))"

subsection \<open>Connection records and the signal classifier (lines 66--126)\<close>

record conn_row =
  mod1 :: string
  conn1 :: string
  pin1 :: string
  signal1 :: string
  mod2 :: string
  conn2 :: string
  pin2 :: string
  signal2 :: string

record connection = conn_row +
  row_idx :: nat

record pin_entry =
  signal :: string
  entry_row_idx :: nat

text \<open>\<open>str(cell)\<close>: a cell that is present gives its text, a missing one the text \<open>nan\<close>.\<close>

definition str_cell :: "cell \<Rightarrow> string" where
  "str_cell c = (case c of None \<Rightarrow> ''nan'' | Some s \<Rightarrow> s)"

text \<open>Lines 82--90: the fields read from one row of the filtered frame.\<close>

definition read_row :: "raw_row \<Rightarrow> conn_row" where
  "read_row r =
     \<lparr>mod1 = strip (str_cell (Modulo1 r)),
      conn1 = strip (str_cell (Conector1 r)),
      pin1 = str_cell (Pin1 r),
      signal1 = (case Senal1 r of Some s \<Rightarrow> strip s | None \<Rightarrow> []),
      mod2 = strip (str_cell (Modulo2 r)),
      conn2 = strip (str_cell (Conector2 r)),
      pin2 = str_cell (Pin2 r),
      signal2 = (case Senal2 r of Some s \<Rightarrow> strip s | None \<Rightarrow> [])\<rparr>"

definition invalid_signals :: "string list" where
  "invalid_signals = ['''', ''nc'', ''n/c'', ''n.c.'', ''no connect'', ''noconnect'', ''n_c'', ''na'', ''n/a'']"

definition is_valid_signal :: "string \<Rightarrow> bool" where
  "is_valid_signal sig =
     (if sig = [] then False
      else let signal_lower = strip (lower sig)
           in if signal_lower \<in> set invalid_signals then False else True)"

text \<open>
  The nested \<open>defaultdict\<close>s: module, then connector, then pin, then the list of entries
  appended for that pin. A key that is read and absent stands for the empty value.
\<close>

type_synonym pins_dict = "(string \<times> pin_entry list) list"
type_synonym connectors = "(string \<times> (string \<times> pins_dict) list) list"

definition get_default :: "('k \<times> 'v list) list \<Rightarrow> 'k \<Rightarrow> 'v list" where
  "get_default d k = (case map_of d k of None \<Rightarrow> [] | Some v \<Rightarrow> v)"

definition append_entry :: "connectors \<Rightarrow> string \<Rightarrow> string \<Rightarrow> string \<Rightarrow> pin_entry \<Rightarrow> connectors" where
  "append_entry cs m c p e =
     (let conns = get_default cs m;
          pins = get_default conns c;
          entries = get_default pins p
      in AList.update m (AList.update c (AList.update p (entries @ [e]) pins) conns) cs)"

record index =
  left_connectors :: connectors
  right_connectors :: connectors
  connections :: "connection list"

definition empty_index :: index where
  "empty_index = \<lparr>left_connectors = [], right_connectors = [], connections = []\<rparr>"

definition index_row :: "nat \<times> conn_row \<Rightarrow> index \<Rightarrow> index" where
  "index_row ir st =
     (let idx = fst ir; row = snd ir;
          signal1_valid = is_valid_signal (signal1 row);
          signal2_valid = is_valid_signal (signal2 row)
      in if \<not> signal1_valid \<and> \<not> signal2_valid then st
         else
           let st1 = (if signal1_valid
                      then st\<lparr>left_connectors :=
                             append_entry (left_connectors st) (mod1 row) (conn1 row) (pin1 row)
                               \<lparr>signal = signal1 row, entry_row_idx = idx\<rparr>\<rparr>
                      else st);
               st2 = (if signal2_valid
                      then st1\<lparr>right_connectors :=
                             append_entry (right_connectors st1) (mod2 row) (conn2 row) (pin2 row)
                               \<lparr>signal = signal2 row, entry_row_idx = idx\<rparr>\<rparr>
                      else st1)
           in if signal1_valid \<and> signal2_valid
              then st2\<lparr>connections := connections st2 @ [conn_row.extend row \<lparr>row_idx = idx\<rparr>]\<rparr>
              else st2)"

text \<open>\<open>df.iterrows()\<close> after \<open>reset_index\<close>: the rows with their positions from 0.\<close>

definition iterrows :: "raw_row list \<Rightarrow> (nat \<times> conn_row) list" where
  "iterrows df = zip [0..<length df] (map read_row df)"

definition build_index :: "raw_row list \<Rightarrow> index" where
  "build_index df = fold index_row (iterrows df) empty_index"

subsection \<open>Diagram constants (lines 129--135, 555--556)\<close>

definition connector_width :: int where "connector_width = 240"
definition connector_padding :: int where "connector_padding = 20"
definition pin_height :: int where "pin_height = 28"
definition module_spacing :: int where "module_spacing = 50"
definition horizontal_gap :: int where "horizontal_gap = 450"
definition margin_x :: int where "margin_x = 50"
definition margin_y :: int where "margin_y = 100"
definition spacing :: int where "spacing = 12"
definition base_offset :: int where "base_offset = 30"

subsection \<open>Pins of a connector and boxes\<close>

record pin_data =
  pin :: string
  pin_signal :: string
  pin_connections :: "pin_entry list"

record box =
  box_x :: int
  box_y :: int
  box_width :: int
  box_height :: int
  box_pins :: "pin_data list"
  box_module :: string
  box_connector :: string

type_synonym positions = "(string \<times> box) list"

text \<open>
  What \<open>float\<close> can read from a pin label: a number, an infinity, or NaN (the spellings
  \<open>nan\<close>, \<open>+nan\<close>, \<open>-nan\<close> in any case; lines 54--55 drop only the first of them).
  \<open>a < b\<close> on floats is false as soon as one side is NaN.
\<close>

datatype pyfloat = NInf | Num rat | PInf | NaN

fun float_lt :: "pyfloat \<Rightarrow> pyfloat \<Rightarrow> bool" where
  "float_lt NaN b = False"
| "float_lt a NaN = False"
| "float_lt NInf NInf = False"
| "float_lt NInf b = True"
| "float_lt (Num a) (Num b) = (a < b)"
| "float_lt (Num a) PInf = True"
| "float_lt (Num a) NInf = False"
| "float_lt PInf b = False"

text \<open>
  \<open>sort_key\<close>: \<open>(0, float(pin))\<close>, or \<open>(1, pin)\<close> when \<open>float\<close> raises; and \<open><\<close> on these
  tuples: the first components decide when they differ, else the second ones are compared,
  two floats or two strings.
\<close>

datatype pin_key = NumKey pyfloat | StrKey string

definition sort_key :: "(string \<Rightarrow> pyfloat option) \<Rightarrow> string \<Rightarrow> pin_key" where
  "sort_key to_float p = (case to_float p of Some v \<Rightarrow> NumKey v | None \<Rightarrow> StrKey p)"

fun key_lt :: "pin_key \<Rightarrow> pin_key \<Rightarrow> bool" where
  "key_lt (NumKey a) (NumKey b) = float_lt a b"
| "key_lt (NumKey a) (StrKey t) = True"
| "key_lt (StrKey s) (NumKey b) = False"
| "key_lt (StrKey s) (StrKey t) = (s < t)"

text \<open>
  \<open>sorted(xs, key=...)\<close> for keys whose \<open><\<close> need not be a total order. CPython's sort
  first measures the run at the start of the list (\<open>count_run\<close>): a list in which no key
  is less than the key before it is one ascending run and comes back unchanged. For any
  other list whose keys \<open><\<close> orders totally the result is the stable sort, taken here by
  insertion from the right. For a list with a descent and keys that \<open><\<close> does not order (a
  NaN among them) the result of CPython depends on the merges of its version; the
  definition gives the insertion sort there, and no statement below is about that case.
\<close>

fun ascending_run :: "('k \<Rightarrow> 'k \<Rightarrow> bool) \<Rightarrow> 'k list \<Rightarrow> bool" where
  "ascending_run lt [] = True"
| "ascending_run lt [a] = True"
| "ascending_run lt (a # b # ks) = (\<not> lt b a \<and> ascending_run lt (b # ks))"

fun insort_lt :: "('a \<Rightarrow> 'k) \<Rightarrow> ('k \<Rightarrow> 'k \<Rightarrow> bool) \<Rightarrow> 'a \<Rightarrow> 'a list \<Rightarrow> 'a list" where
  "insort_lt key lt x [] = [x]"
| "insort_lt key lt x (y # ys) =
     (if lt (key y) (key x) then y # insort_lt key lt x ys else x # y # ys)"

definition py_sorted :: "('a \<Rightarrow> 'k) \<Rightarrow> ('k \<Rightarrow> 'k \<Rightarrow> bool) \<Rightarrow> 'a list \<Rightarrow> 'a list" where
  "py_sorted key lt xs =
     (if ascending_run lt (map key xs) then xs else foldr (insort_lt key lt) xs [])"

text \<open>
  Lines 231--241 (and 296--306, 353--363, 410--420): the pins of one connector, sorted,
  each with the signal of its first entry. Every list of entries was made by an
  \<open>append\<close>, so \<open>connections_list[0]\<close> exists (lemma \<open>index_entries_nonempty\<close> below).
\<close>

definition make_pins_list :: "(string \<Rightarrow> pyfloat option) \<Rightarrow> pins_dict \<Rightarrow> pin_data list" where
  "make_pins_list to_float pd =
     (let sorted_pins = py_sorted (sort_key to_float) key_lt (map fst pd)
      in map (\<lambda>p. let connections_list = get_default pd p
                   in \<lparr>pin = p, pin_signal = signal (hd connections_list),
                       pin_connections = connections_list\<rparr>) sorted_pins)"

definition make_box :: "(string \<Rightarrow> pyfloat option) \<Rightarrow> int \<Rightarrow> int \<Rightarrow> pins_dict \<Rightarrow> string \<Rightarrow> string \<Rightarrow> box" where
  "make_box to_float x_pos current_y pd mod_name conn_name =
     (let pins_list = make_pins_list to_float pd;
          connector_height = int (length pins_list) * pin_height + 60
      in \<lparr>box_x = x_pos, box_y = current_y, box_width = connector_width,
          box_height = connector_height, box_pins = pins_list,
          box_module = mod_name, box_connector = conn_name\<rparr>)"

definition right_x :: int where
  "right_x = margin_x + connector_width + horizontal_gap"

text \<open>The key \<open>f"{mod}:{conn}"\<close>.\<close>

definition key_of :: "string \<Rightarrow> string \<Rightarrow> string" where
  "key_of m c = m @ '':'' @ c"

definition left_key_of :: "connection \<Rightarrow> string" where
  "left_key_of conn = key_of (mod1 conn) (conn1 conn)"

definition right_key_of :: "connection \<Rightarrow> string" where
  "right_key_of conn = key_of (mod2 conn) (conn2 conn)"

text \<open>\<open>connectors_dict[mod_name][conn_name]\<close> and the sorted connector names of a module.\<close>

definition pins_of :: "connectors \<Rightarrow> string \<Rightarrow> string \<Rightarrow> pins_dict" where
  "pins_of cs m c = get_default (get_default cs m) c"

definition sorted_conns :: "connectors \<Rightarrow> string \<Rightarrow> string list" where
  "sorted_conns cs m = sort (map fst (get_default cs m))"

subsection \<open>Provisional placement (lines 217--266)\<close>

definition initial_place :: "(string \<Rightarrow> pyfloat option) \<Rightarrow> connectors \<Rightarrow> bool \<Rightarrow> string \<Rightarrow> string
    \<Rightarrow> positions \<times> int \<Rightarrow> positions \<times> int" where
  "initial_place to_float connectors_dict is_left mod_name conn_name st =
     (let positions = fst st; current_y = snd st;
          x_pos = (if is_left then margin_x else margin_x + connector_width + horizontal_gap);
          b = make_box to_float x_pos current_y (pins_of connectors_dict mod_name conn_name) mod_name conn_name
      in (AList.update (key_of mod_name conn_name) b positions,
          current_y + box_height b + connector_padding))"

definition initial_module :: "(string \<Rightarrow> pyfloat option) \<Rightarrow> connectors \<Rightarrow> bool \<Rightarrow> string
    \<Rightarrow> positions \<times> int \<Rightarrow> positions \<times> int" where
  "initial_module to_float connectors_dict is_left mod_name st =
     (let st' = fold (initial_place to_float connectors_dict is_left mod_name)
                  (sorted_conns connectors_dict mod_name) st
      in (fst st', snd st' + module_spacing))"

definition calculate_initial_positions :: "(string \<Rightarrow> pyfloat option) \<Rightarrow> connectors \<Rightarrow> bool \<Rightarrow> positions" where
  "calculate_initial_positions to_float connectors_dict is_left =
     fst (fold (initial_module to_float connectors_dict is_left)
            (sort (map fst connectors_dict)) ([], margin_y))"

subsection \<open>Center of mass and the order of LEFT modules (lines 181--214, 268--275)\<close>

definition add_weight :: "bool \<Rightarrow> positions \<Rightarrow> string \<Rightarrow> connection \<Rightarrow> int \<times> int \<Rightarrow> int \<times> int" where
  "add_weight is_left other_positions_dict conn_key conn acc =
     (let total_weight = fst acc; weighted_sum = snd acc;
          this_key = (if is_left then left_key_of conn else right_key_of conn);
          target_key = (if is_left then right_key_of conn else left_key_of conn)
      in if this_key = conn_key
         then (case map_of other_positions_dict target_key of
                 None \<Rightarrow> acc
               | Some b \<Rightarrow> (total_weight + 1, weighted_sum + box_y b * 1))
         else acc)"

definition calculate_center_of_mass :: "connection list \<Rightarrow> string \<Rightarrow> bool \<Rightarrow> positions \<Rightarrow> positions \<Rightarrow> rat" where
  "calculate_center_of_mass conns module_key is_left positions_dict other_positions_dict =
     (if module_key \<notin> set (map fst positions_dict) then 0
      else
        let acc = fold (\<lambda>conn_key acc.
                     if \<not> prefix (module_key @ '':'') conn_key then acc
                     else fold (add_weight is_left other_positions_dict conn_key) conns acc)
                   (map fst positions_dict) (0, 0);
            total_weight = fst acc; weighted_sum = snd acc
        in if total_weight = 0 then 0 else of_int weighted_sum / of_int total_weight)"

definition left_modules :: "(string \<Rightarrow> pyfloat option) \<Rightarrow> index \<Rightarrow> (string \<times> rat) list" where
  "left_modules to_float ix =
     (let temp_left = calculate_initial_positions to_float (left_connectors ix) True;
          temp_right = calculate_initial_positions to_float (right_connectors ix) False
      in map (\<lambda>mod_name. (mod_name, calculate_center_of_mass (connections ix) mod_name True temp_left temp_right))
           (map fst (left_connectors ix)))"

text \<open>\<open>sorted(left_modules.keys(), key=lambda m: left_modules[m])\<close>, a stable sort.\<close>

definition sorted_left_modules :: "(string \<Rightarrow> pyfloat option) \<Rightarrow> index \<Rightarrow> string list" where
  "sorted_left_modules to_float ix = map fst (List.sort_key snd (left_modules to_float ix))"

subsection \<open>Final placement (lines 280--435)\<close>

record layout =
  left_positions :: positions
  right_positions :: positions
  current_y :: int

text \<open>Lines 325--328: the modules on the right that a connection from \<open>left_key\<close> reaches.\<close>

definition connected_right_modules :: "connection list \<Rightarrow> string \<Rightarrow> string list" where
  "connected_right_modules conns left_key =
     remdups (map mod2 (filter (\<lambda>conn. left_key_of conn = left_key) conns))"

text \<open>Lines 340--346.\<close>

definition has_connection :: "connection list \<Rightarrow> string \<Rightarrow> string \<Rightarrow> string \<Rightarrow> bool" where
  "has_connection conns left_key right_mod_name right_conn_name =
     list_ex (\<lambda>conn. left_key_of conn = left_key \<and> mod2 conn = right_mod_name
                       \<and> conn2 conn = right_conn_name) conns"

text \<open>Lines 331--332 and 384--385: the connectors of the connected modules, both sorted.\<close>

definition right_candidates :: "index \<Rightarrow> string \<Rightarrow> (string \<times> string) list" where
  "right_candidates ix left_key =
     concat (map (\<lambda>right_mod_name.
                    map (\<lambda>right_conn_name. (right_mod_name, right_conn_name))
                      (sorted_conns (right_connectors ix) right_mod_name))
               (sort (connected_right_modules (connections ix) left_key)))"

text \<open>Lines 333--378: one pass of the inner loop, on \<open>(right_positions, right_start_y)\<close>.\<close>

definition place_right :: "(string \<Rightarrow> pyfloat option) \<Rightarrow> index \<Rightarrow> string \<Rightarrow> string \<times> string
    \<Rightarrow> positions \<times> int \<Rightarrow> positions \<times> int" where
  "place_right to_float ix left_key rmc st =
     (let right_mod_name = fst rmc; right_conn_name = snd rmc;
          right_pos = fst st; right_start_y = snd st;
          right_key = key_of right_mod_name right_conn_name
      in if right_key \<in> set (map fst right_pos) then st
         else if \<not> has_connection (connections ix) left_key right_mod_name right_conn_name then st
         else
           let b = make_box to_float right_x right_start_y
                     (pins_of (right_connectors ix) right_mod_name right_conn_name)
                     right_mod_name right_conn_name
           in (AList.update right_key b right_pos,
               right_start_y + box_height b + connector_padding))"

text \<open>
  Lines 384--389. The source walks the set of connected modules in no particular order;
  a maximum does not depend on it, so the sorted list is walked again.
\<close>

definition max_right :: "positions \<Rightarrow> string \<times> string \<Rightarrow> int \<Rightarrow> int" where
  "max_right right_pos rmc max_right_y =
     (case map_of right_pos (key_of (fst rmc) (snd rmc)) of
        None \<Rightarrow> max_right_y
      | Some b \<Rightarrow> max max_right_y (box_y b + box_height b))"

text \<open>Lines 285--392: the body of the loop over the connectors of the LEFT modules.\<close>

definition place_left :: "(string \<Rightarrow> pyfloat option) \<Rightarrow> index \<Rightarrow> string \<times> string \<Rightarrow> layout \<Rightarrow> layout" where
  "place_left to_float ix mc st =
     (let mod_name = fst mc; conn_name = snd mc;
          left_key = key_of mod_name conn_name;
          b = make_box to_float margin_x (current_y st)
                (pins_of (left_connectors ix) mod_name conn_name) mod_name conn_name;
          right_start_y = current_y st;
          placed = fold (place_right to_float ix left_key) (right_candidates ix left_key)
                     (right_positions st, right_start_y);
          max_right_y = fold (max_right (fst placed)) (right_candidates ix left_key)
                          (current_y st + box_height b)
      in \<lparr>left_positions = AList.update left_key b (left_positions st),
          right_positions = fst placed,
          current_y = max_right_y + module_spacing\<rparr>)"

text \<open>Lines 284--285 (and 561--562): the LEFT connectors in the order they are walked.\<close>

definition left_order :: "(string \<Rightarrow> pyfloat option) \<Rightarrow> index \<Rightarrow> (string \<times> string) list" where
  "left_order to_float ix =
     concat (map (\<lambda>mod_name. map (\<lambda>conn_name. (mod_name, conn_name))
                                (sorted_conns (left_connectors ix) mod_name))
               (sorted_left_modules to_float ix))"

text \<open>Lines 395--435: the RIGHT connectors that no LEFT connector placed.\<close>

definition right_order :: "index \<Rightarrow> (string \<times> string) list" where
  "right_order ix =
     concat (map (\<lambda>mod_name. map (\<lambda>conn_name. (mod_name, conn_name))
                                (sorted_conns (right_connectors ix) mod_name))
               (sort (map fst (right_connectors ix))))"

definition place_rest :: "(string \<Rightarrow> pyfloat option) \<Rightarrow> index \<Rightarrow> string \<times> string \<Rightarrow> layout \<Rightarrow> layout" where
  "place_rest to_float ix mc st =
     (let mod_name = fst mc; conn_name = snd mc;
          right_key = key_of mod_name conn_name
      in if right_key \<in> set (map fst (right_positions st)) then st
         else
           let b = make_box to_float right_x (current_y st)
                     (pins_of (right_connectors ix) mod_name conn_name) mod_name conn_name
           in st\<lparr>right_positions := AList.update right_key b (right_positions st),
                 current_y := current_y st + box_height b + connector_padding\<rparr>)"

definition initial_layout :: layout where
  "initial_layout = \<lparr>left_positions = [], right_positions = [], current_y = margin_y\<rparr>"

definition layout_left :: "(string \<Rightarrow> pyfloat option) \<Rightarrow> index \<Rightarrow> layout" where
  "layout_left to_float ix = fold (place_left to_float ix) (left_order to_float ix) initial_layout"

definition final_layout :: "(string \<Rightarrow> pyfloat option) \<Rightarrow> index \<Rightarrow> layout" where
  "final_layout to_float ix = fold (place_rest to_float ix) (right_order ix) (layout_left to_float ix)"

subsection \<open>Pin shapes and their ids (lines 451--551)\<close>

type_synonym pin_ids = "(string \<times> nat) list"

definition pin_id_key :: "bool \<Rightarrow> string \<Rightarrow> string \<Rightarrow> nat \<Rightarrow> string" where
  "pin_id_key is_right m c r =
     (if is_right then ''right:'' else ''left:'') @ m @ '':'' @ c @ '':'' @ str_nat r"

text \<open>Lines 487--543: one pin takes a cell id for its circle and one for its text.\<close>

definition create_pin :: "bool \<Rightarrow> string \<Rightarrow> string \<Rightarrow> pin_data \<Rightarrow> nat \<times> pin_ids \<Rightarrow> nat \<times> pin_ids" where
  "create_pin is_right m c pd st =
     (let pin_id = fst st;
          ids = fold (\<lambda>conn ids. AList.update (pin_id_key is_right m c (entry_row_idx conn)) pin_id ids)
                  (pin_connections pd) (snd st)
      in (pin_id + 1 + 1, ids))"

definition create_connector_box :: "bool \<Rightarrow> box \<Rightarrow> nat \<times> pin_ids \<Rightarrow> nat \<times> pin_ids" where
  "create_connector_box is_right pos_data st =
     fold (create_pin is_right (box_module pos_data) (box_connector pos_data))
       (box_pins pos_data) (fst st + 1, snd st)"

text \<open>Lines 546--551: the boxes are created in the order of their sorted keys.\<close>

definition create_boxes :: "layout \<Rightarrow> nat \<times> pin_ids" where
  "create_boxes lay =
     fold (create_connector_box True) (map snd (List.sort_key fst (right_positions lay)))
       (fold (create_connector_box False) (map snd (List.sort_key fst (left_positions lay))) (2, []))"

subsection \<open>Lane offsets and wires (lines 553--666)\<close>

type_synonym offsets = "(string \<times> int) list"

definition left_offset_step :: "positions \<Rightarrow> string \<times> string \<Rightarrow> offsets \<times> int \<Rightarrow> offsets \<times> int" where
  "left_offset_step left_pos mc st =
     (let k = key_of (fst mc) (snd mc); current_left_offset = snd st
      in case map_of left_pos k of
           None \<Rightarrow> st
         | Some b \<Rightarrow>
             (AList.update k current_left_offset (fst st),
              current_left_offset + int (length (box_pins b)) * spacing + spacing))"

definition left_connector_offsets :: "(string \<Rightarrow> pyfloat option) \<Rightarrow> index \<Rightarrow> positions \<Rightarrow> offsets" where
  "left_connector_offsets to_float ix left_pos =
     fst (fold (left_offset_step left_pos) (left_order to_float ix) ([], 0))"

definition right_offset_step :: "string \<times> box \<Rightarrow> offsets \<times> int \<Rightarrow> offsets \<times> int" where
  "right_offset_step kb st =
     (let current_right_offset = snd st
      in (AList.update (fst kb) current_right_offset (fst st),
          current_right_offset + int (length (box_pins (snd kb))) * spacing + spacing))"

definition right_connector_offsets :: "positions \<Rightarrow> offsets" where
  "right_connector_offsets right_pos = fst (fold right_offset_step right_pos ([], 0))"

text \<open>\<open>offsets.get(key, 0)\<close>\<close>

definition get_offset :: "offsets \<Rightarrow> string \<Rightarrow> int" where
  "get_offset offs k = (case map_of offs k of None \<Rightarrow> 0 | Some v \<Rightarrow> v)"

text \<open>Lines 610--620: the index of the first pin that lists the row.\<close>

fun find_pin_idx :: "nat \<Rightarrow> pin_data list \<Rightarrow> nat option" where
  "find_pin_idx r [] = None"
| "find_pin_idx r (p # ps) =
     (if list_ex (\<lambda>c. entry_row_idx c = r) (pin_connections p) then Some 0
      else map_option Suc (find_pin_idx r ps))"

record wire =
  wire_conn :: connection
  edge_id :: nat
  source_id :: nat
  target_id :: nat
  left_pin_idx :: nat
  right_pin_idx :: nat
  left_offset_x :: int
  right_offset_x :: int
  points :: "(int \<times> int) list"

definition route_wire :: "layout \<Rightarrow> pin_ids \<Rightarrow> offsets \<Rightarrow> offsets \<Rightarrow> connection
    \<Rightarrow> nat \<times> wire list \<Rightarrow> nat \<times> wire list" where
  "route_wire lay ids left_offs right_offs conn st =
     (let left_key = left_key_of conn; right_key = right_key_of conn
      in case (map_of (left_positions lay) left_key, map_of (right_positions lay) right_key) of
           (Some left_pos, Some right_pos) \<Rightarrow>
             (case (map_of ids (pin_id_key False (mod1 conn) (conn1 conn) (row_idx conn)),
                    map_of ids (pin_id_key True (mod2 conn) (conn2 conn) (row_idx conn))) of
                (Some src, Some tgt) \<Rightarrow>
                  (case (find_pin_idx (row_idx conn) (box_pins left_pos),
                         find_pin_idx (row_idx conn) (box_pins right_pos)) of
                     (Some li, Some ri) \<Rightarrow>
                       let pin_start_y = 50;
                           left_pin_y = box_y left_pos + pin_start_y + int li * pin_height;
                           right_pin_y = box_y right_pos + pin_start_y + int ri * pin_height;
                           left_pin_x = box_x left_pos + box_width left_pos + 5;
                           right_pin_x = box_x right_pos - 5;
                           left_connector_base = get_offset left_offs left_key;
                           right_connector_base = get_offset right_offs right_key;
                           lox = left_pin_x + base_offset + left_connector_base + int li * spacing;
                           rox = right_pin_x - base_offset - right_connector_base - int ri * spacing
                       in (fst st + 1,
                           snd st @ [\<lparr>wire_conn = conn, edge_id = fst st, source_id = src,
                                      target_id = tgt, left_pin_idx = li, right_pin_idx = ri,
                                      left_offset_x = lox, right_offset_x = rox,
                                      points = [(lox, left_pin_y + 4), (lox, right_pin_y + 4),
                                                (rox, right_pin_y + 4)]\<rparr>])
                   | _ \<Rightarrow> st)
              | _ \<Rightarrow> st)
         | _ \<Rightarrow> st)"

subsection \<open>The whole run (lines 26--698)\<close>

record diagram =
  left_boxes :: positions
  right_boxes :: positions
  wires :: "wire list"

definition render :: "(string \<Rightarrow> pyfloat option) \<Rightarrow> index \<Rightarrow> diagram" where
  "render to_float ix =
     (let lay = final_layout to_float ix;
          cells = create_boxes lay;
          left_offs = left_connector_offsets to_float ix (left_positions lay);
          right_offs = right_connector_offsets (right_positions lay)
      in \<lparr>left_boxes = left_positions lay, right_boxes = right_positions lay,
          wires = snd (fold (route_wire lay (snd cells) left_offs right_offs)
                         (connections ix) (fst cells, []))\<rparr>)"

datatype error = ValueError string

definition missing_message :: "string list \<Rightarrow> string" where
  "missing_message cols = ''Faltan columnas requeridas: '' @ join '', '' cols"

definition empty_message :: string where
  "empty_message =
     ''No hay filas v'' @ [char_of (0xC3 :: nat), char_of (0xA1 :: nat)] @ ''lidas despu''
     @ [char_of (0xC3 :: nat), char_of (0xA9 :: nat)]
     @ ''s de filtrar. Verifica que tu Excel tenga valores en Pin1 y Pin2.''"

text \<open>
  The result is the error raised, or the diagram that is written to the output file:
  the file is written at the very end (line 690), so an error leaves no file.
\<close>

definition generate_drawio_diagram :: "(string \<Rightarrow> pyfloat option) \<Rightarrow> table \<Rightarrow> error + diagram" where
  "generate_drawio_diagram to_float t =
     (if missing_cols t \<noteq> [] then Inl (ValueError (missing_message (missing_cols t)))
      else
        let df = filter_rows (rows t)
        in if length df = 0 then Inl (ValueError empty_message)
           else Inr (render to_float (build_index df)))"

subsection \<open>A reader of float spellings\<close>

text \<open>
  An instance of \<open>to_float\<close> for running examples: an optional sign, then \<open>nan\<close>, \<open>inf\<close> or
  \<open>infinity\<close> in any case, or digits with an optional point and digits, at least one
  digit in all. These are spellings that Python's \<open>float\<close> accepts, with the value it reads.
\<close>

definition is_digit :: "char \<Rightarrow> bool" where
  "is_digit c = (let n = (of_char c :: nat) in 48 \<le> n \<and> n \<le> 57)"

definition digits_value :: "string \<Rightarrow> nat" where
  "digits_value ds = foldl (\<lambda>a c. 10 * a + ((of_char c :: nat) - 48)) 0 ds"

definition unsigned_decimal :: "string \<Rightarrow> rat option" where
  "unsigned_decimal s =
     (let ip = takeWhile is_digit s; rest = dropWhile is_digit s
      in case rest of
           [] \<Rightarrow> if ip = [] then None else Some (of_nat (digits_value ip))
         | c # fp \<Rightarrow>
             if c = CHR ''.'' \<and> list_all is_digit fp \<and> (ip \<noteq> [] \<or> fp \<noteq> [])
             then Some (of_nat (digits_value ip) + of_nat (digits_value fp) / 10 ^ length fp)
             else None)"

definition py_float :: "string \<Rightarrow> pyfloat option" where
  "py_float s =
     (let signed = (s \<noteq> [] \<and> (hd s = CHR ''-'' \<or> hd s = CHR ''+''));
          neg = (s \<noteq> [] \<and> hd s = CHR ''-'');
          body = (if signed then tl s else s)
      in if lower body = ''nan'' then Some NaN
         else if lower body = ''inf'' \<or> lower body = ''infinity''
              then Some (if neg then NInf else PInf)
         else map_option (\<lambda>v. Num (if neg then - v else v)) (unsigned_decimal body))"

section \<open>Predicates used in the statements\<close>

text \<open>The lower edge of a box, and what the placement loops keep true below the cursor.\<close>

definition bottom :: "box \<Rightarrow> int" where
  "bottom b = box_y b + box_height b"

definition below :: "positions \<Rightarrow> int \<Rightarrow> bool" where
  "below ps cy \<longleftrightarrow>
     (\<forall>b \<in> snd ` set ps. 0 < box_height b \<and> bottom b \<le> cy)
     \<and> (\<forall>p \<in> snd ` set ps. \<forall>q \<in> snd ` set ps. p \<noteq> q \<longrightarrow> bottom p \<le> box_y q \<or> bottom q \<le> box_y p)
     \<and> distinct (map snd ps)"

text \<open>The key of a pair of module and connector, as the loops over such pairs form it.\<close>

definition cand_key :: "string \<times> string \<Rightarrow> string" where
  "cand_key mc = key_of (fst mc) (snd mc)"

text \<open>The invariant of the two placement loops.\<close>

definition layout_inv :: "layout \<Rightarrow> bool" where
  "layout_inv st \<longleftrightarrow> below (left_positions st) (current_y st)
     \<and> below (right_positions st) (current_y st)
     \<and> distinct (map fst (right_positions st))"

text \<open>Each box of the list ends no lower than the next one starts.\<close>

fun no_overlap :: "box list \<Rightarrow> bool" where
  "no_overlap [] = True"
| "no_overlap [p] = True"
| "no_overlap (p # q # bs) = (box_y p + box_height p \<le> box_y q \<and> no_overlap (q # bs))"

text \<open>
  Reading the nested dictionaries: the entries under a module, connector and pin, the
  connector names of a module and the pin names of a connector.
\<close>

definition entries :: "connectors \<Rightarrow> string \<Rightarrow> string \<Rightarrow> string \<Rightarrow> pin_entry list" where
  "entries cs m c p = get_default (pins_of cs m c) p"

definition conn_names :: "connectors \<Rightarrow> string \<Rightarrow> string set" where
  "conn_names cs m = fst ` set (get_default cs m)"

definition pin_names :: "connectors \<Rightarrow> string \<Rightarrow> string \<Rightarrow> string set" where
  "pin_names cs m c = fst ` set (pins_of cs m c)"

text \<open>Every connector of the index has a pin, and every pin an entry.\<close>

definition filled :: "connectors \<Rightarrow> bool" where
  "filled cs \<longleftrightarrow> (\<forall>m c. c \<in> conn_names cs m \<longrightarrow>
      pin_names cs m c \<noteq> {} \<and> (\<forall>p \<in> pin_names cs m c. entries cs m c p \<noteq> []))"

text \<open>Where the entries of the index come from.\<close>

definition left_sound :: "(nat \<times> conn_row) set \<Rightarrow> connectors \<Rightarrow> bool" where
  "left_sound S cs \<longleftrightarrow> (\<forall>m c p e. e \<in> set (entries cs m c p) \<longrightarrow>
      (\<exists>row. (entry_row_idx e, row) \<in> S \<and> is_valid_signal (signal1 row) \<and> mod1 row = m
             \<and> conn1 row = c \<and> pin1 row = p \<and> signal e = signal1 row))"

definition right_sound :: "(nat \<times> conn_row) set \<Rightarrow> connectors \<Rightarrow> bool" where
  "right_sound S cs \<longleftrightarrow> (\<forall>m c p e. e \<in> set (entries cs m c p) \<longrightarrow>
      (\<exists>row. (entry_row_idx e, row) \<in> S \<and> is_valid_signal (signal2 row) \<and> mod2 row = m
             \<and> conn2 row = c \<and> pin2 row = p \<and> signal e = signal2 row))"

definition conns_sound :: "(nat \<times> conn_row) set \<Rightarrow> connection list \<Rightarrow> bool" where
  "conns_sound S cns \<longleftrightarrow> (\<forall>conn \<in> set cns.
      \<exists>row. (row_idx conn, row) \<in> S \<and> is_valid_signal (signal1 row) \<and> is_valid_signal (signal2 row)
            \<and> conn = conn_row.extend row \<lparr>row_idx = row_idx conn\<rparr>)"

definition index_sound :: "(nat \<times> conn_row) set \<Rightarrow> index \<Rightarrow> bool" where
  "index_sound S ix \<longleftrightarrow> left_sound S (left_connectors ix) \<and> right_sound S (right_connectors ix)
      \<and> conns_sound S (connections ix) \<and> filled (left_connectors ix) \<and> filled (right_connectors ix)"

text \<open>\<open>a <= b\<close> on floats, false as soon as one side is NaN.\<close>

definition float_le :: "pyfloat \<Rightarrow> pyfloat \<Rightarrow> bool" where
  "float_le a b \<longleftrightarrow> float_lt a b \<or> (a = b \<and> a \<noteq> NaN)"

text \<open>
  Keys without NaN are totally ordered: \<open>key_rank\<close> maps them into a linear order that
  agrees with \<open>key_lt\<close>.
\<close>

definition float_rank :: "pyfloat \<Rightarrow> int \<times> rat" where
  "float_rank f = (case f of NInf \<Rightarrow> (- 1, 0) | Num r \<Rightarrow> (0, r) | PInf \<Rightarrow> (1, 0) | NaN \<Rightarrow> (2, 0))"

definition key_rank :: "pin_key \<Rightarrow> nat \<times> (int \<times> rat) \<times> string" where
  "key_rank k = (case k of NumKey f \<Rightarrow> (0, float_rank f, []) | StrKey s \<Rightarrow> (1, (0, 0), s))"

definition ordered_key :: "pin_key \<Rightarrow> bool" where
  "ordered_key k \<longleftrightarrow> k \<noteq> NumKey NaN"

text \<open>
  A box that was built from a connector of the index, at some \<open>y\<close>; and a placement made
  of such boxes, each under the key of its connector.
\<close>

definition made_from :: "(string \<Rightarrow> pyfloat option) \<Rightarrow> connectors \<Rightarrow> int \<Rightarrow> box \<Rightarrow> bool" where
  "made_from to_float cs x b \<longleftrightarrow>
     (\<exists>y m c. c \<in> conn_names cs m \<and> b = make_box to_float x y (pins_of cs m c) m c)"

definition keyed_box :: "(string \<Rightarrow> pyfloat option) \<Rightarrow> connectors \<Rightarrow> int \<Rightarrow> string \<times> box \<Rightarrow> bool" where
  "keyed_box to_float cs x kb \<longleftrightarrow>
     (\<exists>y m c. c \<in> conn_names cs m \<and> fst kb = key_of m c
              \<and> snd kb = make_box to_float x y (pins_of cs m c) m c)"

definition all_made :: "(string \<Rightarrow> pyfloat option) \<Rightarrow> connectors \<Rightarrow> int \<Rightarrow> positions \<Rightarrow> bool" where
  "all_made to_float cs x ps \<longleftrightarrow> (\<forall>kb \<in> set ps. keyed_box to_float cs x kb)"

definition layout_made :: "(string \<Rightarrow> pyfloat option) \<Rightarrow> index \<Rightarrow> layout \<Rightarrow> bool" where
  "layout_made to_float ix st \<longleftrightarrow>
     all_made to_float (left_connectors ix) margin_x (left_positions st)
     \<and> all_made to_float (right_connectors ix) right_x (right_positions st)"

text \<open>
  What the routing loop computes for a wire (lines 606--639): both boxes are found under
  the keys of the connection, the pin indices are those of the first pin listing the row,
  and the lanes follow from the box, the offset of the connector and the pin index.
\<close>

definition routed :: "layout \<Rightarrow> offsets \<Rightarrow> offsets \<Rightarrow> wire \<Rightarrow> bool" where
  "routed lay left_offs right_offs w \<longleftrightarrow>
     (\<exists>left_pos right_pos.
        map_of (left_positions lay) (left_key_of (wire_conn w)) = Some left_pos
      \<and> map_of (right_positions lay) (right_key_of (wire_conn w)) = Some right_pos
      \<and> find_pin_idx (row_idx (wire_conn w)) (box_pins left_pos) = Some (left_pin_idx w)
      \<and> find_pin_idx (row_idx (wire_conn w)) (box_pins right_pos) = Some (right_pin_idx w)
      \<and> left_offset_x w = box_x left_pos + box_width left_pos + 5 + base_offset
            + get_offset left_offs (left_key_of (wire_conn w)) + int (left_pin_idx w) * spacing
      \<and> right_offset_x w = box_x right_pos - 5 - base_offset
            - get_offset right_offs (right_key_of (wire_conn w)) - int (right_pin_idx w) * spacing)"

text \<open>The order in which values first appear in a list.\<close>

definition first_appearance :: "'a list \<Rightarrow> 'a list" where
  "first_appearance xs = fold (\<lambda>x seen. if x \<in> set seen then seen else seen @ [x]) xs []"

text \<open>
  The center of mass in the words of the spec: the mean, over the connections of a LEFT
  module whose RIGHT connector is in the provisional placement, of the \<open>y\<close> of that
  connector; 0 when there is none.
\<close>

definition spec_center_of_mass :: "connection list \<Rightarrow> positions \<Rightarrow> string \<Rightarrow> rat" where
  "spec_center_of_mass conns temp_right m =
     (let ys = concat (map (\<lambda>conn. if mod1 conn = m
                                     then (case map_of temp_right (right_key_of conn) of
                                             None \<Rightarrow> [] | Some b \<Rightarrow> [box_y b])
                                     else []) conns)
      in if ys = [] then 0 else of_int (sum_list ys) / of_int (int (length ys)))"







text \<open>No other connector of the side has the key of this one.\<close>

definition own_key :: "connectors \<Rightarrow> string \<Rightarrow> string \<Rightarrow> bool" where
  "own_key cs m c \<longleftrightarrow>
     (\<forall>m' c'. c' \<in> conn_names cs m' \<and> key_of m' c' = key_of m c \<longrightarrow> m' = m \<and> c' = c)"

subsection \<open>Example tables\<close>

definition ex_row :: "string \<Rightarrow> string \<Rightarrow> string \<Rightarrow> string \<Rightarrow> string \<Rightarrow> string \<Rightarrow> string \<Rightarrow> string \<Rightarrow> raw_row" where
  "ex_row m1 c1 p1 s1 s2 p2 c2 m2 =
     \<lparr>Modulo1 = Some m1, Conector1 = Some c1, Pin1 = Some p1, Senal1 = Some s1,
      Senal2 = Some s2, Pin2 = Some p2, Conector2 = Some c2, Modulo2 = Some m2\<rparr>"

text \<open>Two LEFT modules, each wired to one RIGHT module; the RIGHT modules sort the other way round.\<close>

definition ex_crossed :: table where
  "ex_crossed = \<lparr>columns = required_cols,
     rows = [ex_row ''LA'' ''J1'' ''1'' ''S1'' ''S1'' ''1'' ''P1'' ''RB'',
             ex_row ''LB'' ''J1'' ''1'' ''S2'' ''S2'' ''1'' ''P1'' ''RA'']\<rparr>"

text \<open>A row whose first pin reads as \<open>nan\<close>, alone in a table, and a table without its columns.\<close>

definition ex_nan_row :: raw_row where
  "ex_nan_row = ex_row ''A'' ''J1'' '' NaN '' ''S'' ''S'' ''1'' ''P1'' ''B''"

definition ex_empty :: table where
  "ex_empty = \<lparr>columns = required_cols, rows = [ex_nan_row]\<rparr>"

definition ex_incomplete :: table where
  "ex_incomplete = \<lparr>columns = [''Modulo1'', '' Pin1 ''], rows = [ex_nan_row]\<rparr>"

text \<open>One connector with four pins, two of them numbers, listed out of order.\<close>

definition ex_pins :: table where
  "ex_pins = \<lparr>columns = required_cols,
     rows = [ex_row ''ModA'' ''Con1'' ''SHIELD'' ''GND'' ''GND'' ''1'' ''Con2'' ''ModB'',
             ex_row ''ModA'' ''Con1'' ''10'' ''VCC'' ''VCC'' ''2'' ''Con2'' ''ModB'',
             ex_row ''ModA'' ''Con1'' ''AUX'' ''CLK'' ''CLK'' ''3'' ''Con2'' ''ModB'',
             ex_row ''ModA'' ''Con1'' ''2'' ''SDA'' ''SDA'' ''4'' ''Con2'' ''ModB'']\<rparr>"

definition ex_pins_diagram :: diagram where
  "ex_pins_diagram = render py_float (build_index (filter_rows (rows ex_pins)))"

text \<open>
  Three rows on one pair of connectors: both signals valid, both signals "not connected",
  and a signal on the left only.
\<close>

definition ex_nc :: table where
  "ex_nc = \<lparr>columns = required_cols,
     rows = [ex_row ''ModA'' ''Con1'' ''1'' ''VCC'' ''VCC'' ''1'' ''Con2'' ''ModB'',
             ex_row ''ModA'' ''Con1'' ''2'' ''NC'' '' n/c '' ''2'' ''Con2'' ''ModB'',
             ex_row ''ModA'' ''Con1'' ''3'' ''GPIO3'' ''NC'' ''3'' ''Con2'' ''ModB'']\<rparr>"

definition ex_nc_diagram :: diagram where
  "ex_nc_diagram = render py_float (build_index (filter_rows (rows ex_nc)))"

definition ex_crossed_index :: index where
  "ex_crossed_index = build_index (filter_rows (rows ex_crossed))"







text \<open>One connector whose second pin label reads as NaN.\<close>

definition ex_nan_pins :: table where
  "ex_nan_pins = \<lparr>columns = required_cols,
     rows = [ex_row ''ModA'' ''Con1'' ''3'' ''S1'' ''S1'' ''1'' ''Con2'' ''ModB'',
             ex_row ''ModA'' ''Con1'' ''+nan'' ''S2'' ''S2'' ''2'' ''Con2'' ''ModB'',
             ex_row ''ModA'' ''Con1'' ''1'' ''S3'' ''S3'' ''3'' ''Con2'' ''ModB'',
             ex_row ''ModA'' ''Con1'' ''2'' ''S4'' ''S4'' ''4'' ''Con2'' ''ModB'',
             ex_row ''ModA'' ''Con1'' ''Z'' ''S5'' ''S5'' ''5'' ''Con2'' ''ModB'']\<rparr>"

definition ex_nan_pins_diagram :: diagram where
  "ex_nan_pins_diagram = render py_float (build_index (filter_rows (rows ex_nan_pins)))"

text \<open>
  Two LEFT connectors, \<open>B:C\<close> of module \<open>A\<close> and \<open>C\<close> of module \<open>A:B\<close>, whose keys are both
  \<open>A:B:C\<close>; the first row has a signal on the left only.
\<close>

definition ex_collide :: table where
  "ex_collide = \<lparr>columns = required_cols,
     rows = [ex_row ''A'' ''B:C'' ''1'' ''GPIO3'' ''NC'' ''1'' ''P'' ''R'',
             ex_row ''A:B'' ''C'' ''7'' ''S'' ''S'' ''2'' ''P'' ''R'']\<rparr>"

definition ex_collide_index :: index where
  "ex_collide_index = build_index (filter_rows (rows ex_collide))"

definition ex_collide_diagram :: diagram where
  "ex_collide_diagram = render py_float ex_collide_index"

text \<open>A row with a signal on the left only, and a row with a signal on the right only.\<close>

definition ex_one_sided :: table where
  "ex_one_sided = \<lparr>columns = required_cols,
     rows = [ex_row ''ModA'' ''Con1'' ''1'' ''GPIO3'' ''NC'' ''1'' ''Con2'' ''ModB'',
             ex_row ''ModC'' ''Con3'' ''2'' ''n/c'' ''RX'' ''2'' ''Con4'' ''ModD'']\<rparr>"

definition ex_one_sided_index :: index where
  "ex_one_sided_index = build_index (filter_rows (rows ex_one_sided))"

definition ex_one_sided_diagram :: diagram where
  "ex_one_sided_diagram = render py_float ex_one_sided_index"

section \<open>Shared lemmas\<close>

subsection \<open>Folds and association lists\<close>

lemma fold_invariant:
  assumes "P s" and "\<And>x s. x \<in> set xs \<Longrightarrow> P s \<Longrightarrow> P (f x s)"
  shows "P (fold f xs s)"
  using assms by (induction xs arbitrary: s) auto

lemma set_update_subset: "set (AList.update k v al) \<subseteq> insert (k, v) (set al)"
  by (induction al) auto


lemma distinct_snd_update:
  "distinct (map snd al) \<Longrightarrow> v \<notin> snd ` set al \<Longrightarrow> distinct (map snd (AList.update k v al))"
proof (induction al)
  case Nil
  then show ?case by simp
next
  case (Cons p al)
  have "snd ` set (AList.update k v al) \<subseteq> insert v (snd ` set al)"
    using set_update_subset [of k v al] by force
  with Cons show ?case by (auto simp: image_iff)
qed

lemma below_mono: "below ps cy \<Longrightarrow> cy \<le> cy' \<Longrightarrow> below ps cy'"
  by (fastforce simp: below_def)

lemma below_update:
  assumes "below ps cy" and "cy \<le> box_y b" and "0 < box_height b" and "bottom b \<le> cy'"
  shows "below (AList.update k b ps) cy'"
proof -
  have sub: "snd ` set (AList.update k b ps) \<subseteq> insert b (snd ` set ps)"
    using set_update_subset [of k b ps] by force
  have old: "\<And>q. q \<in> snd ` set ps \<Longrightarrow> 0 < box_height q \<and> bottom q \<le> cy"
    using assms(1) unfolding below_def by blast
  have fresh: "b \<notin> snd ` set ps"
  proof
    assume "b \<in> snd ` set ps"
    from old [OF this] assms(2) show False by (simp add: bottom_def)
  qed
  have cy: "cy \<le> cy'" using assms(2,3,4) by (simp add: bottom_def)
  have 1: "\<forall>q \<in> snd ` set (AList.update k b ps). 0 < box_height q \<and> bottom q \<le> cy'"
    using sub old assms(3,4) cy by fastforce
  have 2: "\<forall>p \<in> snd ` set (AList.update k b ps). \<forall>q \<in> snd ` set (AList.update k b ps).
             p \<noteq> q \<longrightarrow> bottom p \<le> box_y q \<or> bottom q \<le> box_y p"
  proof (intro ballI impI)
    fix p q
    assume p: "p \<in> snd ` set (AList.update k b ps)" and q: "q \<in> snd ` set (AList.update k b ps)"
      and ne: "p \<noteq> q"
    from p sub have p': "p = b \<or> p \<in> snd ` set ps" by blast
    from q sub have q': "q = b \<or> q \<in> snd ` set ps" by blast
    show "bottom p \<le> box_y q \<or> bottom q \<le> box_y p"
    proof (cases "p = b")
      case True
      with ne q' have "q \<in> snd ` set ps" by blast
      from old [OF this] assms(2) True show ?thesis by simp
    next
      case pb: False
      with p' have pin: "p \<in> snd ` set ps" by blast
      show ?thesis
      proof (cases "q = b")
        case True
        from old [OF pin] assms(2) True show ?thesis by simp
      next
        case False
        with q' have "q \<in> snd ` set ps" by blast
        with pin ne assms(1) show ?thesis unfolding below_def by blast
      qed
    qed
  qed
  have 3: "distinct (map snd (AList.update k b ps))"
    using assms(1) fresh unfolding below_def by (blast intro: distinct_snd_update)
  from 1 2 3 show ?thesis unfolding below_def by blast
qed

subsection \<open>Boxes stay apart\<close>

lemma make_box_height: "0 < box_height (make_box to_float x y pd m c)"
  by (simp add: make_box_def Let_def pin_height_def)

lemma make_box_y: "box_y (make_box to_float x y pd m c) = y"
  by (simp add: make_box_def Let_def)

lemma below_place:
  assumes "below ps cy" and "0 \<le> gap"
  shows "below (AList.update k (make_box to_float x cy pd m c) ps)
           (cy + box_height (make_box to_float x cy pd m c) + gap)"
  using assms(2)
  by (intro below_update [OF assms(1)]) (simp_all add: make_box_y make_box_height bottom_def)

lemma place_right_inv:
  assumes "below rp cy" and "distinct (map fst rp)"
  shows "below (fst (place_right to_float ix lk rmc (rp, cy))) (snd (place_right to_float ix lk rmc (rp, cy)))
       \<and> distinct (map fst (fst (place_right to_float ix lk rmc (rp, cy))))
       \<and> cy \<le> snd (place_right to_float ix lk rmc (rp, cy))
       \<and> set (fst (place_right to_float ix lk rmc (rp, cy))) \<subseteq> set rp \<union> {kb. fst kb = cand_key rmc}"
proof -
  let ?b = "make_box to_float right_x cy (pins_of (right_connectors ix) (fst rmc) (snd rmc)) (fst rmc) (snd rmc)"
  have h: "0 < box_height ?b" by (rule make_box_height)
  have 1: "below (AList.update (cand_key rmc) ?b rp) (cy + box_height ?b + connector_padding)"
    by (rule below_place [OF assms(1)]) (simp add: connector_padding_def)
  have 2: "distinct (map fst (AList.update (cand_key rmc) ?b rp))"
    using assms(2) by (rule distinct_update)
  have 3: "set (AList.update (cand_key rmc) ?b rp) \<subseteq> set rp \<union> {kb. fst kb = cand_key rmc}"
    using set_update_subset [of "cand_key rmc" ?b rp] by auto
  have 4: "cy \<le> cy + box_height ?b + connector_padding"
    using h by (simp add: connector_padding_def)
  show ?thesis
    using assms 1 2 3 4 by (simp add: place_right_def Let_def cand_key_def)
qed

lemma fold_place_right_inv:
  assumes "below rp cy" and "distinct (map fst rp)"
  shows "below (fst (fold (place_right to_float ix lk) cands (rp, cy)))
               (snd (fold (place_right to_float ix lk) cands (rp, cy)))
       \<and> distinct (map fst (fst (fold (place_right to_float ix lk) cands (rp, cy))))
       \<and> cy \<le> snd (fold (place_right to_float ix lk) cands (rp, cy))
       \<and> set (fst (fold (place_right to_float ix lk) cands (rp, cy)))
           \<subseteq> set rp \<union> {kb. fst kb \<in> cand_key ` set cands}"
  using assms
proof (induction cands arbitrary: rp cy)
  case Nil
  then show ?case by simp
next
  case (Cons rmc cands)
  obtain rp1 cy1 where st: "place_right to_float ix lk rmc (rp, cy) = (rp1, cy1)"
    by (cases "place_right to_float ix lk rmc (rp, cy)")
  from place_right_inv [OF Cons.prems, of to_float ix lk rmc] st
  have a: "below rp1 cy1" and b: "distinct (map fst rp1)" and c: "cy \<le> cy1"
    and d: "set rp1 \<subseteq> set rp \<union> {kb. fst kb = cand_key rmc}"
    by simp_all
  from Cons.IH [OF a b]
  have e: "below (fst (fold (place_right to_float ix lk) cands (rp1, cy1)))
               (snd (fold (place_right to_float ix lk) cands (rp1, cy1)))"
    and f: "distinct (map fst (fst (fold (place_right to_float ix lk) cands (rp1, cy1))))"
    and g: "cy1 \<le> snd (fold (place_right to_float ix lk) cands (rp1, cy1))"
    and h: "set (fst (fold (place_right to_float ix lk) cands (rp1, cy1)))
           \<subseteq> set rp1 \<union> {kb. fst kb \<in> cand_key ` set cands}"
    by simp_all
  from h d have "set (fst (fold (place_right to_float ix lk) cands (rp1, cy1)))
           \<subseteq> set rp \<union> {kb. fst kb \<in> cand_key ` set (rmc # cands)}"
    by auto
  with e f g c show ?case by (simp add: st)
qed

lemma fold_max_right_ge: "init \<le> fold (max_right rp) cands init"
proof (induction cands arbitrary: init)
  case Nil
  then show ?case by simp
next
  case (Cons a cands)
  have "init \<le> max_right rp a init"
    by (simp add: max_right_def split: option.splits)
  also have "\<dots> \<le> fold (max_right rp) cands (max_right rp a init)"
    by (rule Cons.IH)
  finally show ?case by simp
qed

lemma fold_max_right_covers:
  assumes "mc \<in> set cands" and "map_of rp (cand_key mc) = Some b"
  shows "bottom b \<le> fold (max_right rp) cands init"
  using assms(1)
proof (induction cands arbitrary: init)
  case Nil
  then show ?case by simp
next
  case (Cons a cands)
  show ?case
  proof (cases "a = mc")
    case True
    have "bottom b \<le> max_right rp a init"
      using assms(2) True by (simp add: max_right_def cand_key_def bottom_def)
    also have "\<dots> \<le> fold (max_right rp) cands (max_right rp a init)"
      by (rule fold_max_right_ge)
    finally show ?thesis by simp
  next
    case False
    with Cons.prems have "mc \<in> set cands" by simp
    from Cons.IH [OF this] show ?thesis by simp
  qed
qed

lemma below_raise:
  assumes "below ps cy" and "\<And>k b. (k, b) \<in> set ps \<Longrightarrow> bottom b \<le> cy'"
  shows "below ps cy'"
  using assms unfolding below_def by fastforce

lemma place_left_inv:
  assumes "layout_inv st"
  shows "layout_inv (place_left to_float ix mc st)"
proof -
  let ?lk = "key_of (fst mc) (snd mc)"
  let ?b = "make_box to_float margin_x (current_y st) (pins_of (left_connectors ix) (fst mc) (snd mc)) (fst mc) (snd mc)"
  let ?cands = "right_candidates ix ?lk"
  let ?placed = "fold (place_right to_float ix ?lk) ?cands (right_positions st, current_y st)"
  let ?m = "fold (max_right (fst ?placed)) ?cands (current_y st + box_height ?b)"
  from assms have L: "below (left_positions st) (current_y st)"
    and R: "below (right_positions st) (current_y st)"
    and D: "distinct (map fst (right_positions st))"
    by (simp_all add: layout_inv_def)
  from fold_place_right_inv [OF R D, of to_float ix ?lk ?cands]
  have a: "below (fst ?placed) (snd ?placed)" and b: "distinct (map fst (fst ?placed))"
    and d: "set (fst ?placed) \<subseteq> set (right_positions st) \<union> {kb. fst kb \<in> cand_key ` set ?cands}"
    by simp_all
  have ge: "current_y st + box_height ?b \<le> ?m" by (rule fold_max_right_ge)
  have hb: "0 < box_height ?b" by (rule make_box_height)
  have left: "below (AList.update ?lk ?b (left_positions st)) (?m + module_spacing)"
    using ge by (intro below_update [OF L]) (simp_all add: make_box_y hb bottom_def module_spacing_def)
  have right: "below (fst ?placed) (?m + module_spacing)"
  proof (rule below_raise [OF a])
    fix k q
    assume kq: "(k, q) \<in> set (fst ?placed)"
    show "bottom q \<le> ?m + module_spacing"
    proof (cases "(k, q) \<in> set (right_positions st)")
      case True
      then have "q \<in> snd ` set (right_positions st)" by force
      with R have "bottom q \<le> current_y st" unfolding below_def by blast
      with ge hb show ?thesis by (simp add: module_spacing_def)
    next
      case False
      with kq d obtain mc' where mc': "mc' \<in> set ?cands" and k: "k = cand_key mc'" by auto
      from b kq have "map_of (fst ?placed) k = Some q" by simp
      with k have look: "map_of (fst ?placed) (cand_key mc') = Some q" by simp
      have "bottom q \<le> ?m" by (rule fold_max_right_covers [OF mc' look])
      then show ?thesis by (simp add: module_spacing_def)
    qed
  qed
  show ?thesis
    using left right b by (simp add: layout_inv_def place_left_def Let_def)
qed

lemma place_rest_inv:
  assumes "layout_inv st"
  shows "layout_inv (place_rest to_float ix mc st)"
proof -
  let ?k = "key_of (fst mc) (snd mc)"
  let ?b = "make_box to_float right_x (current_y st) (pins_of (right_connectors ix) (fst mc) (snd mc)) (fst mc) (snd mc)"
  from assms have L: "below (left_positions st) (current_y st)"
    and R: "below (right_positions st) (current_y st)"
    and D: "distinct (map fst (right_positions st))"
    by (simp_all add: layout_inv_def)
  have hb: "0 < box_height ?b" by (rule make_box_height)
  have 1: "below (AList.update ?k ?b (right_positions st)) (current_y st + box_height ?b + connector_padding)"
    by (rule below_place [OF R]) (simp add: connector_padding_def)
  have 2: "below (left_positions st) (current_y st + box_height ?b + connector_padding)"
    using hb by (intro below_mono [OF L]) (simp add: connector_padding_def)
  have 3: "distinct (map fst (AList.update ?k ?b (right_positions st)))"
    using D by (rule distinct_update)
  show ?thesis
    using assms 1 2 3 by (simp add: layout_inv_def place_rest_def Let_def)
qed

lemma initial_layout_inv: "layout_inv initial_layout"
  by (simp add: layout_inv_def initial_layout_def below_def)

lemma final_layout_inv: "layout_inv (final_layout to_float ix)"
proof -
  have "layout_inv (layout_left to_float ix)"
    unfolding layout_left_def
    by (rule fold_invariant [where P = layout_inv]) (simp_all add: initial_layout_inv place_left_inv)
  then show ?thesis
    unfolding final_layout_def
    by (rule fold_invariant [where P = layout_inv]) (simp add: place_rest_inv)
qed

lemma sorted_separated_no_overlap:
  assumes "sorted (map box_y bs)" and "distinct bs"
    and "\<forall>b \<in> set bs. 0 < box_height b"
    and "\<forall>p \<in> set bs. \<forall>q \<in> set bs. p \<noteq> q \<longrightarrow> bottom p \<le> box_y q \<or> bottom q \<le> box_y p"
  shows "no_overlap bs"
  using assms
proof (induction bs rule: no_overlap.induct)
  case 1
  then show ?case by simp
next
  case (2 p)
  then show ?case by simp
next
  case (3 p q bs)
  from "3.prems" have ne: "p \<noteq> q" and le: "box_y p \<le> box_y q" and hq: "0 < box_height q"
    by auto
  from "3.prems"(4) ne have "bottom p \<le> box_y q \<or> bottom q \<le> box_y p" by simp
  with le hq have here: "box_y p + box_height p \<le> box_y q" by (auto simp: bottom_def)
  have "no_overlap (q # bs)"
    using "3.prems" by (intro "3.IH") auto
  with here show ?case by simp
qed

lemma below_no_overlap:
  assumes "below ps cy"
  shows "no_overlap (List.sort_key box_y (map snd ps))"
proof (rule sorted_separated_no_overlap)
  show "sorted (map box_y (List.sort_key box_y (map snd ps)))" by (rule sorted_sort_key)
  show "distinct (List.sort_key box_y (map snd ps))"
    using assms by (simp add: below_def)
  show "\<forall>b \<in> set (List.sort_key box_y (map snd ps)). 0 < box_height b"
    using assms unfolding below_def by simp
  show "\<forall>p \<in> set (List.sort_key box_y (map snd ps)). \<forall>q \<in> set (List.sort_key box_y (map snd ps)).
          p \<noteq> q \<longrightarrow> bottom p \<le> box_y q \<or> bottom q \<le> box_y p"
    using assms unfolding below_def by simp
qed

subsection \<open>The whole run\<close>

lemma generate_Inr:
  assumes "generate_drawio_diagram to_float t = Inr d"
  shows "d = render to_float (build_index (filter_rows (rows t)))"
  using assms by (simp add: generate_drawio_diagram_def Let_def split: if_splits)

lemma render_boxes:
  "left_boxes (render to_float ix) = left_positions (final_layout to_float ix)"
  "right_boxes (render to_float ix) = right_positions (final_layout to_float ix)"
  by (simp_all add: render_def Let_def)


lemma generate_ok:
  assumes "missing_cols t = []" and "filter_rows (rows t) \<noteq> []"
  shows "generate_drawio_diagram to_float t = Inr (render to_float (build_index (filter_rows (rows t))))"
  using assms by (simp add: generate_drawio_diagram_def Let_def)

lemma filter_rows_append: "filter_rows (xs @ ys) = filter_rows xs @ filter_rows ys"
  by (simp add: filter_rows_def dropna_names_def drop_nan_pins_def drop_empty_pins_def
      astype_str_strip_def dropna_pins_def)

lemma filter_rows_nan:
  assumes "lower (strip (str_cell (Pin1 r))) = ''nan'' \<or> lower (strip (str_cell (Pin2 r))) = ''nan''"
  shows "filter_rows [r] = []"
  using assms
  by (auto simp add: filter_rows_def dropna_names_def drop_nan_pins_def drop_empty_pins_def
      astype_str_strip_def dropna_pins_def str_cell_def split: option.splits)

lemma filter_rows_absent:
  assumes "Pin1 r = None \<or> Pin2 r = None"
  shows "filter_rows [r] = []"
  using assms
  by (auto simp add: filter_rows_def dropna_names_def drop_nan_pins_def drop_empty_pins_def
      astype_str_strip_def dropna_pins_def str_cell_def split: option.splits)

lemma messages_differ: "empty_message \<noteq> missing_message cols"
  by (simp add: empty_message_def missing_message_def)

lemma ex_crossed_cols: "missing_cols ex_crossed = []"
  by code_simp

lemma ex_crossed_rows: "filter_rows (rows ex_crossed) \<noteq> []"
  by code_simp

lemma get_default_update:
  "get_default (AList.update k v al) k' = (if k' = k then v else get_default al k')"
  by (simp add: get_default_def update_conv')

lemma pins_of_append_entry:
  "pins_of (append_entry cs m c p e) m' c' =
     (if m' = m \<and> c' = c then AList.update p (entries cs m c p @ [e]) (pins_of cs m c)
      else pins_of cs m' c')"
  by (simp add: pins_of_def append_entry_def Let_def get_default_update entries_def)

lemma entries_append_entry:
  "entries (append_entry cs m c p e) m' c' p' =
     (if m' = m \<and> c' = c \<and> p' = p then entries cs m c p @ [e] else entries cs m' c' p')"
  by (simp add: entries_def pins_of_append_entry get_default_update)

lemma conn_names_append_entry:
  "conn_names (append_entry cs m c p e) m' =
     (if m' = m then insert c (conn_names cs m) else conn_names cs m')"
  by (simp add: conn_names_def append_entry_def Let_def get_default_update dom_update)

lemma pin_names_append_entry:
  "pin_names (append_entry cs m c p e) m' c' =
     (if m' = m \<and> c' = c then insert p (pin_names cs m c) else pin_names cs m' c')"
  by (simp add: pin_names_def pins_of_append_entry dom_update)

lemma modules_append_entry:
  "map fst (append_entry cs m c p e) =
     (if m \<in> set (map fst cs) then map fst cs else map fst cs @ [m])"
  by (simp add: append_entry_def Let_def update_keys)

lemma pin_names_absent:
  assumes "c \<notin> conn_names cs m"
  shows "pin_names cs m c = {}"
proof -
  from assms have "map_of (get_default cs m) c = None"
    unfolding conn_names_def by (simp add: map_of_eq_None_iff)
  then have "pins_of cs m c = []"
    unfolding pins_of_def by (subst get_default_def) simp
  then show ?thesis by (simp add: pin_names_def)
qed

lemma filled_append_entry:
  assumes "filled cs"
  shows "filled (append_entry cs m c p e)"
  unfolding filled_def
proof (intro allI impI)
  fix m' c'
  assume c': "c' \<in> conn_names (append_entry cs m c p e) m'"
  show "pin_names (append_entry cs m c p e) m' c' \<noteq> {} \<and>
        (\<forall>p' \<in> pin_names (append_entry cs m c p e) m' c'.
            entries (append_entry cs m c p e) m' c' p' \<noteq> [])"
  proof (cases "m' = m \<and> c' = c")
    case True
    have "\<And>q. q \<in> pin_names cs m c \<Longrightarrow> entries cs m c q \<noteq> []"
      using assms pin_names_absent [of c cs m] unfolding filled_def by blast
    with True show ?thesis
      by (auto simp add: pin_names_append_entry entries_append_entry)
  next
    case False
    with c' have "c' \<in> conn_names cs m'"
      by (auto simp add: conn_names_append_entry split: if_splits)
    with assms have "pin_names cs m' c' \<noteq> {} \<and> (\<forall>p' \<in> pin_names cs m' c'. entries cs m' c' p' \<noteq> [])"
      unfolding filled_def by blast
    with False show ?thesis
      by (auto simp add: pin_names_append_entry entries_append_entry)
  qed
qed

lemma filled_empty: "filled []"
  by (simp add: filled_def conn_names_def get_default_def)

lemma entries_empty: "entries [] m c p = []"
  by (simp add: entries_def pins_of_def get_default_def)

lemma index_sound_empty: "index_sound S empty_index"
  by (simp add: index_sound_def empty_index_def left_sound_def right_sound_def conns_sound_def
      entries_empty filled_empty)

lemma left_sound_append:
  assumes "left_sound S cs" and "(i, row) \<in> S" and "is_valid_signal (signal1 row)"
  shows "left_sound S (append_entry cs (mod1 row) (conn1 row) (pin1 row) \<lparr>signal = signal1 row, entry_row_idx = i\<rparr>)"
  using assms unfolding left_sound_def
  by (auto simp add: entries_append_entry split: if_splits)

lemma right_sound_append:
  assumes "right_sound S cs" and "(i, row) \<in> S" and "is_valid_signal (signal2 row)"
  shows "right_sound S (append_entry cs (mod2 row) (conn2 row) (pin2 row) \<lparr>signal = signal2 row, entry_row_idx = i\<rparr>)"
  using assms unfolding right_sound_def
  by (auto simp add: entries_append_entry split: if_splits)

lemma row_idx_extend: "row_idx (conn_row.extend row \<lparr>row_idx = i\<rparr>) = i"
  by (simp add: conn_row.extend_def)

lemma index_row_sound:
  assumes "index_sound S st" and "ir \<in> S"
  shows "index_sound S (index_row ir st)"
proof -
  obtain i row where ir: "ir = (i, row)" by (cases ir)
  from assms(1) have L: "left_sound S (left_connectors st)" and R: "right_sound S (right_connectors st)"
    and C: "conns_sound S (connections st)" and FL: "filled (left_connectors st)"
    and FR: "filled (right_connectors st)"
    by (simp_all add: index_sound_def)
  have C': "is_valid_signal (signal1 row) \<Longrightarrow> is_valid_signal (signal2 row) \<Longrightarrow>
      conns_sound S (connections st @ [conn_row.extend row \<lparr>row_idx = i\<rparr>])"
    using C assms(2) ir unfolding conns_sound_def
    by (auto simp add: row_idx_extend)
  show ?thesis
    using L R C FL FR C' assms(2) ir
    by (simp add: index_row_def Let_def index_sound_def left_sound_append right_sound_append
        filled_append_entry)
qed

lemma build_index_sound: "index_sound (set (iterrows df)) (build_index df)"
  unfolding build_index_def
  by (rule fold_invariant [where P = "index_sound (set (iterrows df))"])
     (simp_all add: index_sound_empty index_row_sound)

lemma index_entries_nonempty:
  assumes "c \<in> conn_names (left_connectors (build_index df)) m"
    and "p \<in> pin_names (left_connectors (build_index df)) m c"
  shows "entries (left_connectors (build_index df)) m c p \<noteq> []"
  using build_index_sound [of df] assms unfolding index_sound_def filled_def by blast

lemma iterrows_memD:
  "(i, row) \<in> set (iterrows df) \<Longrightarrow> i < length df \<and> row = read_row (df ! i)"
  by (auto simp add: iterrows_def set_zip)

lemma iterrows_memI:
  assumes "i < length df"
  shows "(i, read_row (df ! i)) \<in> set (iterrows df)"
  unfolding iterrows_def set_zip using assms
  by (simp) (rule exI [of _ i], simp)

lemma keyed_box_made: "keyed_box to_float cs x kb \<Longrightarrow> made_from to_float cs x (snd kb)"
  unfolding keyed_box_def made_from_def by blast


lemma all_made_update:
  assumes "all_made to_float cs x ps" and "c \<in> conn_names cs m"
  shows "all_made to_float cs x
           (AList.update (key_of m c) (make_box to_float x y (pins_of cs m c) m c) ps)"
proof -
  have "keyed_box to_float cs x (key_of m c, make_box to_float x y (pins_of cs m c) m c)"
    unfolding keyed_box_def using assms(2) by auto
  with assms(1) set_update_subset [of "key_of m c" "make_box to_float x y (pins_of cs m c) m c" ps]
  show ?thesis unfolding all_made_def by blast
qed

lemma set_sorted_conns: "set (sorted_conns cs m) = conn_names cs m"
  by (simp add: sorted_conns_def conn_names_def)

lemma right_candidates_names:
  "rmc \<in> set (right_candidates ix lk) \<Longrightarrow> snd rmc \<in> conn_names (right_connectors ix) (fst rmc)"
  by (auto simp add: right_candidates_def set_sorted_conns)

lemma left_order_names:
  "mc \<in> set (left_order to_float ix) \<Longrightarrow> snd mc \<in> conn_names (left_connectors ix) (fst mc)"
  by (auto simp add: left_order_def set_sorted_conns)

lemma right_order_names:
  "mc \<in> set (right_order ix) \<Longrightarrow> snd mc \<in> conn_names (right_connectors ix) (fst mc)"
  by (auto simp add: right_order_def set_sorted_conns)

lemma place_right_made:
  assumes "all_made to_float (right_connectors ix) right_x (fst st)"
    and "rmc \<in> set (right_candidates ix lk)"
  shows "all_made to_float (right_connectors ix) right_x (fst (place_right to_float ix lk rmc st))"
  using assms(1) all_made_update [OF assms(1) right_candidates_names [OF assms(2)]]
  by (simp add: place_right_def Let_def)

lemma fold_place_right_made:
  assumes "all_made to_float (right_connectors ix) right_x rp"
  shows "all_made to_float (right_connectors ix) right_x
           (fst (fold (place_right to_float ix lk) (right_candidates ix lk) (rp, y)))"
  by (rule fold_invariant [where P = "\<lambda>st. all_made to_float (right_connectors ix) right_x (fst st)"])
     (simp_all add: assms place_right_made)

lemma place_left_made:
  assumes "layout_made to_float ix st" and "mc \<in> set (left_order to_float ix)"
  shows "layout_made to_float ix (place_left to_float ix mc st)"
  using assms all_made_update [OF _ left_order_names [OF assms(2)]] fold_place_right_made
  by (simp add: layout_made_def place_left_def Let_def)

lemma place_rest_made:
  assumes "layout_made to_float ix st" and "mc \<in> set (right_order ix)"
  shows "layout_made to_float ix (place_rest to_float ix mc st)"
  using assms all_made_update [OF _ right_order_names [OF assms(2)]]
  by (simp add: layout_made_def place_rest_def Let_def)

lemma final_layout_made: "layout_made to_float ix (final_layout to_float ix)"
proof -
  have "layout_made to_float ix (layout_left to_float ix)"
    unfolding layout_left_def
  proof (rule fold_invariant [where P = "layout_made to_float ix"])
    show "layout_made to_float ix initial_layout"
      by (simp add: layout_made_def initial_layout_def all_made_def)
  qed (rule place_left_made)
  then show ?thesis
    unfolding final_layout_def
    by (rule fold_invariant [where P = "layout_made to_float ix"]) (rule place_rest_made)
qed

subsection \<open>Pins of a box\<close>

lemma set_insort_lt: "set (insort_lt key lt x ys) = insert x (set ys)"
  by (induction ys) auto

lemma length_insort_lt: "length (insort_lt key lt x ys) = Suc (length ys)"
  by (induction ys) auto

lemma set_foldr_insort_lt: "set (foldr (insort_lt key lt) xs []) = set xs"
  by (induction xs) (simp_all add: set_insort_lt)

lemma length_foldr_insort_lt: "length (foldr (insort_lt key lt) xs []) = length xs"
  by (induction xs) (simp_all add: length_insort_lt)

lemma set_py_sorted: "set (py_sorted key lt xs) = set xs"
  by (simp add: py_sorted_def set_foldr_insort_lt)

lemma length_py_sorted: "length (py_sorted key lt xs) = length xs"
  by (simp add: py_sorted_def length_foldr_insort_lt)

lemma float_rank_inj: "a \<noteq> NaN \<Longrightarrow> b \<noteq> NaN \<Longrightarrow> float_rank a = float_rank b \<longleftrightarrow> a = b"
  by (cases a; cases b) (simp_all add: float_rank_def)

lemma float_lt_rank: "a \<noteq> NaN \<Longrightarrow> b \<noteq> NaN \<Longrightarrow> float_lt a b \<longleftrightarrow> float_rank a < float_rank b"
  by (cases a; cases b) (simp_all add: float_rank_def less_prod_def)

lemma float_le_rank: "a \<noteq> NaN \<Longrightarrow> b \<noteq> NaN \<Longrightarrow> float_le a b \<longleftrightarrow> float_rank a \<le> float_rank b"
  using float_rank_inj [of a b] float_lt_rank [of a b]
  by (auto simp add: float_le_def le_less)

lemma key_lt_rank:
  "ordered_key a \<Longrightarrow> ordered_key b \<Longrightarrow> key_lt a b \<longleftrightarrow> key_rank a < key_rank b"
  by (cases a; cases b) (simp_all add: ordered_key_def key_rank_def float_lt_rank less_prod_def)

lemma insort_lt_rank:
  assumes "ordered_key (key x)" and "\<forall>y \<in> set ys. ordered_key (key y)"
  shows "insort_lt key key_lt x ys = insort_key (key_rank \<circ> key) x ys"
  using assms(2)
proof (induction ys)
  case Nil
  then show ?case by simp
next
  case (Cons y ys)
  then have "key_lt (key y) (key x) \<longleftrightarrow> key_rank (key y) < key_rank (key x)"
    using assms(1) by (simp add: key_lt_rank)
  with Cons show ?case by (auto simp add: not_le)
qed

lemma foldr_insort_lt_rank:
  assumes "\<forall>x \<in> set xs. ordered_key (key x)"
  shows "foldr (insort_lt key key_lt) xs [] = List.sort_key (key_rank \<circ> key) xs"
  using assms
proof (induction xs)
  case Nil
  then show ?case by simp
next
  case (Cons x xs)
  from Cons.prems have "\<forall>y \<in> set xs. ordered_key (key y)" by simp
  then have ih: "foldr (insort_lt key key_lt) xs [] = List.sort_key (key_rank \<circ> key) xs"
    by (rule Cons.IH)
  have x: "ordered_key (key x)" using Cons.prems by simp
  have rest: "\<forall>y \<in> set (List.sort_key (key_rank \<circ> key) xs). ordered_key (key y)"
    using Cons.prems by simp
  have "foldr (insort_lt key key_lt) (x # xs) []
      = insort_lt key key_lt x (foldr (insort_lt key key_lt) xs [])"
    by simp
  also have "\<dots> = insort_lt key key_lt x (List.sort_key (key_rank \<circ> key) xs)"
    by (simp only: ih)
  also have "\<dots> = insort_key (key_rank \<circ> key) x (List.sort_key (key_rank \<circ> key) xs)"
    by (rule insort_lt_rank [OF x rest])
  also have "\<dots> = List.sort_key (key_rank \<circ> key) (x # xs)"
    by (simp only: sort_key_simps)
  finally show ?case .
qed

lemma ascending_run_sorted:
  assumes "\<forall>k \<in> set ks. ordered_key k" and "ascending_run key_lt ks"
  shows "sorted (map key_rank ks)"
  using assms
proof (induction key_lt ks rule: ascending_run.induct)
  case 1
  then show ?case by simp
next
  case (2 a)
  then show ?case by simp
next
  case (3 a b ks)
  then have "\<not> key_rank b < key_rank a" by (simp add: key_lt_rank)
  then have ab: "key_rank a \<le> key_rank b" by (simp add: not_less)
  from 3 have s: "sorted (map key_rank (b # ks))" by simp
  from ab s show ?case by (simp only: list.map sorted2)
qed

lemma py_sorted_rank:
  assumes "\<forall>x \<in> set xs. ordered_key (key x)"
  shows "py_sorted key key_lt xs = List.sort_key (key_rank \<circ> key) xs"
proof (cases "ascending_run key_lt (map key xs)")
  case True
  with assms have "sorted (map key_rank (map key xs))"
    by (intro ascending_run_sorted) simp_all
  then have "List.sort_key (key_rank \<circ> key) xs = xs"
    by (intro sort_key_id_if_sorted) (simp add: comp_def)
  with True show ?thesis by (simp add: py_sorted_def)
next
  case False
  with assms show ?thesis by (simp add: py_sorted_def foldr_insort_lt_rank)
qed

lemma pin_make_pins_list:
  "map pin (make_pins_list to_float pd) = py_sorted (sort_key to_float) key_lt (map fst pd)"
  by (simp add: make_pins_list_def Let_def comp_def)

lemma set_pin_make_pins_list: "pin ` set (make_pins_list to_float pd) = fst ` set pd"
  using pin_make_pins_list [of to_float pd] set_py_sorted [of "sort_key to_float" key_lt "map fst pd"]
  by (metis set_map)

lemma make_pins_list_mem:
  assumes "p \<in> set (make_pins_list to_float pd)"
  shows "pin p \<in> fst ` set pd \<and> pin_connections p = get_default pd (pin p)
       \<and> pin_signal p = signal (hd (get_default pd (pin p)))"
  using assms by (force simp add: make_pins_list_def Let_def set_py_sorted)

lemma make_pins_list_has:
  assumes "p \<in> fst ` set pd"
  shows "\<exists>q \<in> set (make_pins_list to_float pd). pin q = p \<and> pin_connections q = get_default pd p"
proof -
  from assms have "p \<in> pin ` set (make_pins_list to_float pd)"
    by (simp only: set_pin_make_pins_list)
  then obtain q where q: "q \<in> set (make_pins_list to_float pd)" and p: "pin q = p" by auto
  from make_pins_list_mem [OF q] p have "pin_connections q = get_default pd p" by simp
  with q p show ?thesis by blast
qed

lemma length_make_pins_list: "length (make_pins_list to_float pd) = length pd"
  by (simp add: make_pins_list_def Let_def length_py_sorted)

lemma make_pins_list_Nil: "make_pins_list to_float pd = [] \<longleftrightarrow> pd = []"
  using length_make_pins_list [of to_float pd] by (metis length_0_conv)

lemma sort_key_ordered: "ordered_key (sort_key to_float p) \<longleftrightarrow> to_float p \<noteq> Some NaN"
  by (simp add: ordered_key_def sort_key_def split: option.splits)

lemma sorted_make_pins_list:
  assumes "\<forall>p \<in> fst ` set pd. to_float p \<noteq> Some NaN"
  shows "sorted (map (key_rank \<circ> sort_key to_float) (map pin (make_pins_list to_float pd)))"
proof -
  from assms have "\<forall>p \<in> set (map fst pd). ordered_key (sort_key to_float p)"
    by (simp add: sort_key_ordered)
  then have "py_sorted (sort_key to_float) key_lt (map fst pd)
      = List.sort_key (key_rank \<circ> sort_key to_float) (map fst pd)"
    by (rule py_sorted_rank)
  then show ?thesis by (simp only: pin_make_pins_list sorted_sort_key)
qed

lemma box_pins_make_box: "box_pins (make_box to_float x y pd m c) = make_pins_list to_float pd"
  by (simp add: make_box_def Let_def)

lemma box_names_make_box:
  "box_module (make_box to_float x y pd m c) = m" "box_connector (make_box to_float x y pd m c) = c"
  by (simp_all add: make_box_def Let_def)

lemma made_from_sorted:
  assumes "made_from to_float cs x b"
    and "\<forall>p \<in> set (box_pins b). to_float (pin p) \<noteq> Some NaN"
  shows "sorted (map (key_rank \<circ> sort_key to_float) (map pin (box_pins b)))"
proof -
  from assms(1) obtain y m c where b: "b = make_box to_float x y (pins_of cs m c) m c"
    unfolding made_from_def by blast
  from assms(2) have "\<forall>p \<in> pin ` set (make_pins_list to_float (pins_of cs m c)). to_float p \<noteq> Some NaN"
    by (simp add: b box_pins_make_box)
  then have "\<forall>p \<in> fst ` set (pins_of cs m c). to_float p \<noteq> Some NaN"
    by (simp only: set_pin_make_pins_list)
  then show ?thesis by (simp only: b box_pins_make_box sorted_make_pins_list)
qed

lemma sort_key_le:
  assumes "key_rank (sort_key to_float p) \<le> key_rank (sort_key to_float q)"
    and "to_float p \<noteq> Some NaN" and "to_float q \<noteq> Some NaN"
  shows "(\<forall>v. to_float q = Some v \<longrightarrow> (\<exists>u. to_float p = Some u \<and> float_le u v))
       \<and> (to_float p = None \<longrightarrow> to_float q = None \<and> p \<le> q)"
  using assms
  by (auto simp add: sort_key_def key_rank_def float_le_rank split: option.splits)

lemma render_boxes_made:
  assumes "b \<in> snd ` set (left_boxes (render to_float ix)) \<union> snd ` set (right_boxes (render to_float ix))"
  shows "made_from to_float (left_connectors ix) margin_x b \<or> made_from to_float (right_connectors ix) right_x b"
  using assms final_layout_made [of to_float ix]
  unfolding layout_made_def all_made_def render_boxes by (auto dest: keyed_box_made)

lemma ex_pins_generate: "generate_drawio_diagram py_float ex_pins = Inr ex_pins_diagram"
proof -
  have "missing_cols ex_pins = []" by code_simp
  moreover have "filter_rows (rows ex_pins) \<noteq> []" by code_simp
  ultimately show ?thesis unfolding ex_pins_diagram_def by (rule generate_ok)
qed

lemma made_from_entries:
  assumes "made_from to_float cs x b" and "p \<in> set (box_pins b)"
  shows "pin_connections p = entries cs (box_module b) (box_connector b) (pin p)
       \<and> pin p \<in> pin_names cs (box_module b) (box_connector b)
       \<and> box_connector b \<in> conn_names cs (box_module b)"
proof -
  from assms(1) obtain y m c where c: "c \<in> conn_names cs m"
    and b: "b = make_box to_float x y (pins_of cs m c) m c"
    unfolding made_from_def by blast
  from assms(2) b have "p \<in> set (make_pins_list to_float (pins_of cs m c))"
    by (simp add: box_pins_make_box)
  from make_pins_list_mem [OF this] b c show ?thesis
    by (simp add: box_names_make_box entries_def pin_names_def)
qed

lemma made_from_filled:
  assumes "made_from to_float cs x b" and "filled cs"
  shows "box_pins b \<noteq> [] \<and> (\<forall>p \<in> set (box_pins b). pin_connections p \<noteq> [])"
proof -
  from assms(1) obtain y m c where c: "c \<in> conn_names cs m"
    and b: "b = make_box to_float x y (pins_of cs m c) m c"
    unfolding made_from_def by blast
  from assms(2) c have ne: "pin_names cs m c \<noteq> {}"
    and en: "\<And>q. q \<in> pin_names cs m c \<Longrightarrow> entries cs m c q \<noteq> []"
    unfolding filled_def by blast+
  from ne have "pins_of cs m c \<noteq> []" by (auto simp add: pin_names_def)
  then have 1: "box_pins b \<noteq> []" by (simp add: b box_pins_make_box make_pins_list_Nil)
  have 2: "\<forall>p \<in> set (box_pins b). pin_connections p \<noteq> []"
  proof
    fix p assume p: "p \<in> set (box_pins b)"
    from made_from_entries [OF assms(1) p] b en show "pin_connections p \<noteq> []"
      by (simp add: box_names_make_box)
  qed
  from 1 2 show ?thesis by blast
qed

lemma route_wire_routed:
  assumes "\<forall>w \<in> set (snd st). wire_conn w \<in> C \<and> routed lay lo ro w" and "conn \<in> C"
  shows "\<forall>w \<in> set (snd (route_wire lay ids lo ro conn st)). wire_conn w \<in> C \<and> routed lay lo ro w"
  using assms
  by (auto simp add: route_wire_def Let_def routed_def split: option.splits)

lemma fold_route_wire_routed:
  "\<forall>w \<in> set (snd (fold (route_wire lay ids lo ro) conns (n, []))).
      wire_conn w \<in> set conns \<and> routed lay lo ro w"
  by (rule fold_invariant [where P = "\<lambda>st :: nat \<times> wire list.
        \<forall>w \<in> set (snd st). wire_conn w \<in> set conns \<and> routed lay lo ro w"])
     (simp, rule route_wire_routed)

lemma render_wires:
  assumes "w \<in> set (wires (render to_float ix))"
  shows "wire_conn w \<in> set (connections ix)
       \<and> routed (final_layout to_float ix)
           (left_connector_offsets to_float ix (left_positions (final_layout to_float ix)))
           (right_connector_offsets (right_positions (final_layout to_float ix))) w"
  using assms fold_route_wire_routed
  by (simp add: render_def Let_def)

subsection \<open>Signals\<close>

lemma is_space_lower_char: "is_space (lower_char c) = is_space c"
  by (auto simp add: is_space_def lower_char_def Let_def)

lemma lower_strip: "lower (strip s) = strip (lower s)"
proof -
  have c: "is_space \<circ> lower_char = is_space"
    by (rule ext) (simp add: is_space_lower_char)
  show ?thesis
    by (simp add: lower_def strip_def rev_map dropWhile_map c)
qed

lemma invalid_signal_iff: "\<not> is_valid_signal s \<longleftrightarrow> lower (strip s) \<in> set invalid_signals"
proof (cases "s = []")
  case True
  then show ?thesis
    by (simp add: is_valid_signal_def lower_def strip_def invalid_signals_def)
next
  case False
  then show ?thesis
    by (simp add: is_valid_signal_def Let_def lower_strip)
qed

subsection \<open>Entries of the index and the rows they come from\<close>

lemma index_row_left_mono:
  assumes "e \<in> set (entries (left_connectors st) m c p)"
  shows "e \<in> set (entries (left_connectors (index_row ir st)) m c p)"
  using assms by (auto simp add: index_row_def Let_def entries_append_entry)

lemma index_row_right_mono:
  assumes "e \<in> set (entries (right_connectors st) m c p)"
  shows "e \<in> set (entries (right_connectors (index_row ir st)) m c p)"
  using assms by (auto simp add: index_row_def Let_def entries_append_entry)

lemma index_row_adds_left:
  assumes "is_valid_signal (signal1 row)"
  shows "\<lparr>signal = signal1 row, entry_row_idx = i\<rparr>
     \<in> set (entries (left_connectors (index_row (i, row) st)) (mod1 row) (conn1 row) (pin1 row))"
  using assms by (simp add: index_row_def Let_def entries_append_entry)

lemma index_row_adds_right:
  assumes "is_valid_signal (signal2 row)"
  shows "\<lparr>signal = signal2 row, entry_row_idx = i\<rparr>
     \<in> set (entries (right_connectors (index_row (i, row) st)) (mod2 row) (conn2 row) (pin2 row))"
  using assms by (simp add: index_row_def Let_def entries_append_entry)

lemma fold_index_row_left:
  assumes "(i, row) \<in> set xs" and "is_valid_signal (signal1 row)"
  shows "\<lparr>signal = signal1 row, entry_row_idx = i\<rparr>
     \<in> set (entries (left_connectors (fold index_row xs st)) (mod1 row) (conn1 row) (pin1 row))"
  using assms(1)
proof (induction xs arbitrary: st)
  case Nil
  then show ?case by simp
next
  case (Cons x xs)
  show ?case
  proof (cases "x = (i, row)")
    case True
    have "\<lparr>signal = signal1 row, entry_row_idx = i\<rparr>
        \<in> set (entries (left_connectors (fold index_row xs (index_row (i, row) st)))
                 (mod1 row) (conn1 row) (pin1 row))"
      by (rule fold_invariant [where P = "\<lambda>s. \<lparr>signal = signal1 row, entry_row_idx = i\<rparr>
            \<in> set (entries (left_connectors s) (mod1 row) (conn1 row) (pin1 row))"])
         (simp_all add: index_row_adds_left [OF assms(2)] index_row_left_mono)
    with True show ?thesis by simp
  next
    case False
    with Cons.prems have "(i, row) \<in> set xs" by simp
    from Cons.IH [OF this] show ?thesis by simp
  qed
qed

lemma fold_index_row_right:
  assumes "(i, row) \<in> set xs" and "is_valid_signal (signal2 row)"
  shows "\<lparr>signal = signal2 row, entry_row_idx = i\<rparr>
     \<in> set (entries (right_connectors (fold index_row xs st)) (mod2 row) (conn2 row) (pin2 row))"
  using assms(1)
proof (induction xs arbitrary: st)
  case Nil
  then show ?case by simp
next
  case (Cons x xs)
  show ?case
  proof (cases "x = (i, row)")
    case True
    have "\<lparr>signal = signal2 row, entry_row_idx = i\<rparr>
        \<in> set (entries (right_connectors (fold index_row xs (index_row (i, row) st)))
                 (mod2 row) (conn2 row) (pin2 row))"
      by (rule fold_invariant [where P = "\<lambda>s. \<lparr>signal = signal2 row, entry_row_idx = i\<rparr>
            \<in> set (entries (right_connectors s) (mod2 row) (conn2 row) (pin2 row))"])
         (simp_all add: index_row_adds_right [OF assms(2)] index_row_right_mono)
    with True show ?thesis by simp
  next
    case False
    with Cons.prems have "(i, row) \<in> set xs" by simp
    from Cons.IH [OF this] show ?thesis by simp
  qed
qed

lemma left_entry_row:
  assumes "e \<in> set (entries (left_connectors (build_index df)) m c p)"
  shows "entry_row_idx e < length df \<and> is_valid_signal (signal1 (read_row (df ! entry_row_idx e)))
       \<and> mod1 (read_row (df ! entry_row_idx e)) = m \<and> conn1 (read_row (df ! entry_row_idx e)) = c
       \<and> pin1 (read_row (df ! entry_row_idx e)) = p \<and> signal e = signal1 (read_row (df ! entry_row_idx e))"
proof -
  have "left_sound (set (iterrows df)) (left_connectors (build_index df))"
    using build_index_sound [of df] by (simp add: index_sound_def)
  with assms obtain row where "(entry_row_idx e, row) \<in> set (iterrows df)"
    and "is_valid_signal (signal1 row)" and "mod1 row = m" and "conn1 row = c" and "pin1 row = p"
    and "signal e = signal1 row"
    unfolding left_sound_def by blast
  with iterrows_memD [of "entry_row_idx e" row df] show ?thesis by simp
qed

lemma right_entry_row:
  assumes "e \<in> set (entries (right_connectors (build_index df)) m c p)"
  shows "entry_row_idx e < length df \<and> is_valid_signal (signal2 (read_row (df ! entry_row_idx e)))
       \<and> mod2 (read_row (df ! entry_row_idx e)) = m \<and> conn2 (read_row (df ! entry_row_idx e)) = c
       \<and> pin2 (read_row (df ! entry_row_idx e)) = p \<and> signal e = signal2 (read_row (df ! entry_row_idx e))"
proof -
  have "right_sound (set (iterrows df)) (right_connectors (build_index df))"
    using build_index_sound [of df] by (simp add: index_sound_def)
  with assms obtain row where "(entry_row_idx e, row) \<in> set (iterrows df)"
    and "is_valid_signal (signal2 row)" and "mod2 row = m" and "conn2 row = c" and "pin2 row = p"
    and "signal e = signal2 row"
    unfolding right_sound_def by blast
  with iterrows_memD [of "entry_row_idx e" row df] show ?thesis by simp
qed

lemma connection_row:
  assumes "conn \<in> set (connections (build_index df))"
  shows "row_idx conn < length df \<and> is_valid_signal (signal1 (read_row (df ! row_idx conn)))
       \<and> is_valid_signal (signal2 (read_row (df ! row_idx conn)))
       \<and> conn = conn_row.extend (read_row (df ! row_idx conn)) \<lparr>row_idx = row_idx conn\<rparr>"
proof -
  have "conns_sound (set (iterrows df)) (connections (build_index df))"
    using build_index_sound [of df] by (simp add: index_sound_def)
  with assms obtain row where "(row_idx conn, row) \<in> set (iterrows df)"
    and "is_valid_signal (signal1 row)" and "is_valid_signal (signal2 row)"
    and "conn = conn_row.extend row \<lparr>row_idx = row_idx conn\<rparr>"
    unfolding conns_sound_def by blast
  with iterrows_memD [of "row_idx conn" row df] show ?thesis by simp
qed

lemma left_box_entries:
  assumes "b \<in> snd ` set (left_boxes (render to_float (build_index df)))"
  shows "box_pins b \<noteq> [] \<and> (\<forall>p \<in> set (box_pins b). pin_connections p \<noteq> [] \<and>
           (\<forall>e \<in> set (pin_connections p). entry_row_idx e < length df
               \<and> is_valid_signal (signal1 (read_row (df ! entry_row_idx e)))
               \<and> mod1 (read_row (df ! entry_row_idx e)) = box_module b
               \<and> conn1 (read_row (df ! entry_row_idx e)) = box_connector b
               \<and> pin1 (read_row (df ! entry_row_idx e)) = pin p))"
proof -
  let ?ix = "build_index df"
  from assms final_layout_made [of to_float ?ix]
  have m: "made_from to_float (left_connectors ?ix) margin_x b"
    unfolding layout_made_def all_made_def render_boxes by (auto dest: keyed_box_made)
  have f: "filled (left_connectors ?ix)"
    using build_index_sound [of df] by (simp add: index_sound_def)
  from made_from_filled [OF m f] made_from_entries [OF m] left_entry_row [where df = df]
  show ?thesis by metis
qed

lemma right_box_entries:
  assumes "b \<in> snd ` set (right_boxes (render to_float (build_index df)))"
  shows "box_pins b \<noteq> [] \<and> (\<forall>p \<in> set (box_pins b). pin_connections p \<noteq> [] \<and>
           (\<forall>e \<in> set (pin_connections p). entry_row_idx e < length df
               \<and> is_valid_signal (signal2 (read_row (df ! entry_row_idx e)))
               \<and> mod2 (read_row (df ! entry_row_idx e)) = box_module b
               \<and> conn2 (read_row (df ! entry_row_idx e)) = box_connector b
               \<and> pin2 (read_row (df ! entry_row_idx e)) = pin p))"
proof -
  let ?ix = "build_index df"
  from assms final_layout_made [of to_float ?ix]
  have m: "made_from to_float (right_connectors ?ix) right_x b"
    unfolding layout_made_def all_made_def render_boxes by (auto dest: keyed_box_made)
  have f: "filled (right_connectors ?ix)"
    using build_index_sound [of df] by (simp add: index_sound_def)
  from made_from_filled [OF m f] made_from_entries [OF m] right_entry_row [where df = df]
  show ?thesis by metis
qed

lemma wire_row:
  assumes "w \<in> set (wires (render to_float (build_index df)))"
  shows "row_idx (wire_conn w) < length df
       \<and> is_valid_signal (signal1 (read_row (df ! row_idx (wire_conn w))))
       \<and> is_valid_signal (signal2 (read_row (df ! row_idx (wire_conn w))))"
  using render_wires [OF assms] connection_row [of "wire_conn w" df] by blast

lemma ex_nc_generate: "generate_drawio_diagram py_float ex_nc = Inr ex_nc_diagram"
proof -
  have "missing_cols ex_nc = []" by code_simp
  moreover have "filter_rows (rows ex_nc) \<noteq> []" by code_simp
  ultimately show ?thesis unfolding ex_nc_diagram_def by (rule generate_ok)
qed

subsection \<open>The order of the LEFT modules\<close>

lemma index_row_modules:
  "map fst (left_connectors (index_row ir st)) =
     (if is_valid_signal (signal1 (snd ir)) \<and> mod1 (snd ir) \<notin> set (map fst (left_connectors st))
      then map fst (left_connectors st) @ [mod1 (snd ir)]
      else map fst (left_connectors st))"
  by (simp add: index_row_def Let_def modules_append_entry)

lemma fold_index_row_modules:
  "map fst (left_connectors (fold index_row xs st)) =
     fold (\<lambda>x seen. if x \<in> set seen then seen else seen @ [x])
       (map (mod1 \<circ> snd) (filter (\<lambda>ir. is_valid_signal (signal1 (snd ir))) xs))
       (map fst (left_connectors st))"
proof (induction xs arbitrary: st)
  case Nil
  then show ?case by simp
next
  case (Cons x xs)
  show ?case
    by (simp add: Cons.IH index_row_modules)
qed

lemma build_index_modules:
  "map fst (left_connectors (build_index df)) =
     first_appearance (map (mod1 \<circ> snd)
       (filter (\<lambda>ir. is_valid_signal (signal1 (snd ir))) (iterrows df)))"
  by (simp add: build_index_def fold_index_row_modules first_appearance_def empty_index_def)

lemma sort_key_all_equal:
  assumes "\<forall>x \<in> set xs. f x = c"
  shows "List.sort_key f xs = xs"
proof -
  have "sorted (map f xs)" using assms by (induction xs) auto
  then show ?thesis by (rule sort_key_id_if_sorted)
qed

subsection \<open>Lane offsets\<close>









lemma place_left_keys:
  "fst ` set (left_positions (place_left to_float ix mc st))
     = insert (cand_key mc) (fst ` set (left_positions st))"
  by (simp add: place_left_def Let_def dom_update cand_key_def)

lemma fold_place_left_keys:
  "fst ` set (left_positions (fold (place_left to_float ix) xs st))
     = cand_key ` set xs \<union> fst ` set (left_positions st)"
  by (induction xs arbitrary: st) (auto simp add: place_left_keys)

lemma place_rest_left: "left_positions (place_rest to_float ix mc st) = left_positions st"
  by (simp add: place_rest_def Let_def)

lemma fold_place_rest_left: "left_positions (fold (place_rest to_float ix) xs st) = left_positions st"
  by (induction xs arbitrary: st) (simp_all add: place_rest_left)

lemma final_left_keys:
  "fst ` set (left_positions (final_layout to_float ix)) = cand_key ` set (left_order to_float ix)"
  by (simp add: final_layout_def fold_place_rest_left layout_left_def fold_place_left_keys
      initial_layout_def)




subsection \<open>RIGHT connectors placed with a LEFT connector\<close>




subsection \<open>The pin of a valid side in its box\<close>

lemma place_rest_keys:
  "fst ` set (right_positions (place_rest to_float ix mc st))
     = insert (cand_key mc) (fst ` set (right_positions st))"
  by (auto simp add: place_rest_def Let_def dom_update cand_key_def)

lemma fold_place_rest_keys:
  "fst ` set (right_positions (fold (place_rest to_float ix) xs st))
     = cand_key ` set xs \<union> fst ` set (right_positions st)"
  by (induction xs arbitrary: st) (auto simp add: place_rest_keys)

lemma final_right_keys:
  "cand_key ` set (right_order ix) \<subseteq> fst ` set (right_positions (final_layout to_float ix))"
  by (simp add: final_layout_def fold_place_rest_keys)

lemma conn_names_module:
  assumes "c \<in> conn_names cs m"
  shows "m \<in> fst ` set cs"
proof (rule ccontr)
  assume "m \<notin> fst ` set cs"
  then have "map_of cs m = None" by (simp add: map_of_eq_None_iff)
  then have "get_default cs m = []" by (simp add: get_default_def)
  with assms show False by (simp add: conn_names_def)
qed

lemma entries_names:
  assumes "e \<in> set (entries cs m c p)"
  shows "m \<in> fst ` set cs \<and> c \<in> conn_names cs m \<and> p \<in> pin_names cs m c"
proof -
  from assms have "get_default (pins_of cs m c) p \<noteq> []" by (auto simp add: entries_def)
  then have "map_of (pins_of cs m c) p \<noteq> None"
    by (auto simp add: get_default_def split: option.splits)
  then have p: "p \<in> pin_names cs m c"
    by (simp add: pin_names_def map_of_eq_None_iff)
  with pin_names_absent [of c cs m] have c: "c \<in> conn_names cs m" by auto
  from conn_names_module [OF c] p c show ?thesis by blast
qed

lemma set_sorted_left_modules:
  "set (sorted_left_modules to_float ix) = fst ` set (left_connectors ix)"
  by (simp add: sorted_left_modules_def left_modules_def Let_def image_comp comp_def)

lemma left_order_mem:
  assumes "c \<in> conn_names (left_connectors ix) m"
  shows "(m, c) \<in> set (left_order to_float ix)"
  using assms conn_names_module [OF assms]
  by (auto simp add: left_order_def set_sorted_left_modules set_sorted_conns)

lemma right_order_mem:
  assumes "c \<in> conn_names (right_connectors ix) m"
  shows "(m, c) \<in> set (right_order ix)"
  using assms conn_names_module [OF assms]
  by (auto simp add: right_order_def set_sorted_conns)

lemma keyed_pin:
  assumes "all_made to_float cs x ps" and "key_of m c \<in> fst ` set ps"
    and "own_key cs m c" and "e \<in> set (entries cs m c p)"
  shows "\<exists>b q. (key_of m c, b) \<in> set ps \<and> box_module b = m \<and> box_connector b = c
            \<and> q \<in> set (box_pins b) \<and> pin q = p \<and> e \<in> set (pin_connections q)"
proof -
  from assms(2) obtain b where kb: "(key_of m c, b) \<in> set ps" by auto
  with assms(1) have "keyed_box to_float cs x (key_of m c, b)" unfolding all_made_def by blast
  then obtain y m' c' where c': "c' \<in> conn_names cs m'" and k: "key_of m c = key_of m' c'"
    and b: "b = make_box to_float x y (pins_of cs m' c') m' c'"
    unfolding keyed_box_def by auto
  from assms(3) c' k have same: "m' = m \<and> c' = c" unfolding own_key_def by metis
  from entries_names [OF assms(4)] have "p \<in> fst ` set (pins_of cs m c)"
    by (simp add: pin_names_def)
  from make_pins_list_has [OF this, of to_float]
  obtain q where q: "q \<in> set (make_pins_list to_float (pins_of cs m c))" and qp: "pin q = p"
    and qc: "pin_connections q = get_default (pins_of cs m c) p"
    by blast
  from assms(4) qc have "e \<in> set (pin_connections q)" by (simp add: entries_def)
  moreover from q b same have "q \<in> set (box_pins b)" by (simp add: box_pins_make_box)
  moreover from b same have "box_module b = m" and "box_connector b = c"
    by (simp_all add: box_names_make_box)
  ultimately show ?thesis using kb qp by blast
qed

lemma own_key_left:
  assumes "\<forall>mc \<in> set (left_order to_float ix). cand_key mc = key_of m c \<longrightarrow> mc = (m, c)"
  shows "own_key (left_connectors ix) m c"
  unfolding own_key_def
proof (intro allI impI)
  fix m' c'
  assume h: "c' \<in> conn_names (left_connectors ix) m' \<and> key_of m' c' = key_of m c"
  then have "(m', c') \<in> set (left_order to_float ix)" by (simp add: left_order_mem)
  with assms h show "m' = m \<and> c' = c" by (auto simp add: cand_key_def)
qed

lemma own_key_right:
  assumes "\<forall>mc \<in> set (right_order ix). cand_key mc = key_of m c \<longrightarrow> mc = (m, c)"
  shows "own_key (right_connectors ix) m c"
  unfolding own_key_def
proof (intro allI impI)
  fix m' c'
  assume h: "c' \<in> conn_names (right_connectors ix) m' \<and> key_of m' c' = key_of m c"
  then have "(m', c') \<in> set (right_order ix)" by (simp add: right_order_mem)
  with assms h show "m' = m \<and> c' = c" by (auto simp add: cand_key_def)
qed

lemma ex_one_sided_generate:
  "generate_drawio_diagram py_float ex_one_sided = Inr ex_one_sided_diagram"
proof -
  have "missing_cols ex_one_sided = []" by code_simp
  moreover have "filter_rows (rows ex_one_sided) \<noteq> []" by code_simp
  ultimately show ?thesis
    unfolding ex_one_sided_diagram_def ex_one_sided_index_def by (rule generate_ok)
qed

section \<open>The claims\<close>

text \<open>
  C3. Among the final boxes of one side, taken in the order of their \<open>y\<close>, each box ends
  (at \<open>y + height\<close>) no lower than the next one starts: no two boxes of a side overlap.
\<close>

theorem boxes_do_not_overlap:
  assumes "generate_drawio_diagram to_float t = Inr d"
  shows "no_overlap (List.sort_key box_y (map snd (left_boxes d)))
       \<and> no_overlap (List.sort_key box_y (map snd (right_boxes d)))"
proof -
  let ?ix = "build_index (filter_rows (rows t))"
  have "layout_inv (final_layout to_float ?ix)" by (rule final_layout_inv)
  then have "below (left_positions (final_layout to_float ?ix)) (current_y (final_layout to_float ?ix))"
    and "below (right_positions (final_layout to_float ?ix)) (current_y (final_layout to_float ?ix))"
    by (simp_all add: layout_inv_def)
  then show ?thesis
    by (simp add: generate_Inr [OF assms] render_boxes below_no_overlap)
qed

theorem boxes_do_not_overlap_witness:
  "generate_drawio_diagram py_float ex_crossed
     = Inr (render py_float (build_index (filter_rows (rows ex_crossed))))
   \<and> length (left_boxes (render py_float (build_index (filter_rows (rows ex_crossed))))) = 2
   \<and> no_overlap (List.sort_key box_y (map snd
        (left_boxes (render py_float (build_index (filter_rows (rows ex_crossed)))))))
   \<and> no_overlap (List.sort_key box_y (map snd
        (right_boxes (render py_float (build_index (filter_rows (rows ex_crossed)))))))"
proof -
  have g: "generate_drawio_diagram py_float ex_crossed
     = Inr (render py_float (build_index (filter_rows (rows ex_crossed))))"
    by (rule generate_ok [OF ex_crossed_cols ex_crossed_rows])
  have n: "length (left_boxes (render py_float (build_index (filter_rows (rows ex_crossed))))) = 2"
    by code_simp
  from boxes_do_not_overlap [OF g] g n show ?thesis by simp
qed

text \<open>
  C8. When the columns are all there and no row survives the filters, the run ends in an
  error whose message differs from every missing-columns message, and returns no diagram;
  when a required column is missing, the run ends in the missing-columns error whatever
  the rows are, so before any row is read, and returns no diagram.
\<close>

theorem empty_and_schema_errors:
  "(missing_cols t = [] \<and> filter_rows (rows t) = [] \<longrightarrow>
      generate_drawio_diagram to_float t = Inl (ValueError empty_message)
      \<and> (\<forall>cols. empty_message \<noteq> missing_message cols))
   \<and> (missing_cols t \<noteq> [] \<longrightarrow>
      (\<forall>rs. generate_drawio_diagram to_float (t\<lparr>rows := rs\<rparr>)
               = Inl (ValueError (missing_message (missing_cols t)))))"
  by (simp add: generate_drawio_diagram_def messages_differ missing_cols_def)

theorem empty_and_schema_errors_witness:
  "missing_cols ex_empty = [] \<and> filter_rows (rows ex_empty) = []
   \<and> generate_drawio_diagram py_float ex_empty = Inl (ValueError empty_message)
   \<and> missing_cols ex_incomplete \<noteq> []
   \<and> generate_drawio_diagram py_float ex_incomplete
       = Inl (ValueError (missing_message (missing_cols ex_incomplete)))"
proof -
  have a: "missing_cols ex_empty = []" by code_simp
  have b: "filter_rows (rows ex_empty) = []" by code_simp
  have c: "missing_cols ex_incomplete \<noteq> []" by code_simp
  have d: "ex_incomplete\<lparr>rows := rows ex_incomplete\<rparr> = ex_incomplete" by simp
  from empty_and_schema_errors [of ex_empty py_float] a b
  have 1: "generate_drawio_diagram py_float ex_empty = Inl (ValueError empty_message)"
    by blast
  from empty_and_schema_errors [of ex_incomplete py_float] c
  have "generate_drawio_diagram py_float (ex_incomplete\<lparr>rows := rows ex_incomplete\<rparr>)
       = Inl (ValueError (missing_message (missing_cols ex_incomplete)))"
    by blast
  with d have 2: "generate_drawio_diagram py_float ex_incomplete
       = Inl (ValueError (missing_message (missing_cols ex_incomplete)))"
    by simp
  from a b c 1 2 show ?thesis by blast
qed

text \<open>
  C9. A row whose first or second pin, as a trimmed string, reads \<open>nan\<close> in any mix of
  cases (a missing cell reads so too) is dropped by the filters: the filtered frame, and
  with it the whole run, is the same as without the row, and the same as for the row with
  that pin absent.
\<close>

theorem nan_pin_rows_dropped:
  assumes "lower (strip (str_cell (Pin1 r))) = ''nan'' \<or> lower (strip (str_cell (Pin2 r))) = ''nan''"
  shows "filter_rows (xs @ r # ys) = filter_rows (xs @ ys)
       \<and> filter_rows (xs @ r\<lparr>Pin1 := None\<rparr> # ys) = filter_rows (xs @ ys)
       \<and> filter_rows (xs @ r\<lparr>Pin2 := None\<rparr> # ys) = filter_rows (xs @ ys)
       \<and> generate_drawio_diagram to_float (t\<lparr>rows := xs @ r # ys\<rparr>)
           = generate_drawio_diagram to_float (t\<lparr>rows := xs @ ys\<rparr>)"
proof -
  have 1: "filter_rows (xs @ r # ys) = filter_rows (xs @ ys)"
    using filter_rows_append [of xs "[r] @ ys"] filter_rows_append [of "[r]" ys]
      filter_rows_nan [OF assms] filter_rows_append [of xs ys]
    by simp
  have 2: "filter_rows (xs @ r\<lparr>Pin1 := None\<rparr> # ys) = filter_rows (xs @ ys)"
    using filter_rows_append [of xs "[r\<lparr>Pin1 := None\<rparr>] @ ys"]
      filter_rows_append [of "[r\<lparr>Pin1 := None\<rparr>]" ys]
      filter_rows_absent [of "r\<lparr>Pin1 := None\<rparr>"] filter_rows_append [of xs ys]
    by simp
  have 3: "filter_rows (xs @ r\<lparr>Pin2 := None\<rparr> # ys) = filter_rows (xs @ ys)"
    using filter_rows_append [of xs "[r\<lparr>Pin2 := None\<rparr>] @ ys"]
      filter_rows_append [of "[r\<lparr>Pin2 := None\<rparr>]" ys]
      filter_rows_absent [of "r\<lparr>Pin2 := None\<rparr>"] filter_rows_append [of xs ys]
    by simp
  have 4: "generate_drawio_diagram to_float (t\<lparr>rows := xs @ r # ys\<rparr>)
           = generate_drawio_diagram to_float (t\<lparr>rows := xs @ ys\<rparr>)"
    using 1 by (simp add: generate_drawio_diagram_def missing_cols_def)
  from 1 2 3 4 show ?thesis by blast
qed

theorem nan_pin_rows_dropped_witness:
  "lower (strip (str_cell (Pin1 ex_nan_row))) = ''nan''
   \<and> filter_rows (rows ex_crossed @ ex_nan_row # rows ex_crossed)
       = filter_rows (rows ex_crossed @ rows ex_crossed)
   \<and> filter_rows (rows ex_crossed @ rows ex_crossed) \<noteq> []"
proof -
  have h: "lower (strip (str_cell (Pin1 ex_nan_row))) = ''nan''" by code_simp
  have n: "filter_rows (rows ex_crossed @ rows ex_crossed) \<noteq> []" by code_simp
  from nan_pin_rows_dropped [OF disjI1 [OF h], of "rows ex_crossed" "rows ex_crossed"] h n
  show ?thesis by blast
qed

text \<open>
  C6. The order the claim describes fails where a pin label reads as NaN. In the example
  the pins of the connector are listed as \<open>3\<close>, \<open>+nan\<close>, \<open>1\<close>, \<open>2\<close>, \<open>Z\<close>; the label \<open>+nan\<close>
  is kept by the filters of lines 54--55 and read by \<open>float\<close> as NaN, no key is then less
  than the key before it, and the sort returns the list as it is: the numeric labels
  \<open>3\<close>, \<open>1\<close>, \<open>2\<close> are not ascending.
\<close>

theorem nan_label_breaks_pin_order:
  "generate_drawio_diagram py_float ex_nan_pins = Inr ex_nan_pins_diagram
   \<and> map pin (box_pins (snd (left_boxes ex_nan_pins_diagram ! 0))) = [''3'', ''+nan'', ''1'', ''2'', ''Z'']
   \<and> map py_float [''3'', ''+nan'', ''1'', ''2'', ''Z'']
        = [Some (Num 3), Some NaN, Some (Num 1), Some (Num 2), None]
   \<and> \<not> float_le (Num 3) (Num 1)"
proof -
  have "missing_cols ex_nan_pins = []" by code_simp
  moreover have "filter_rows (rows ex_nan_pins) \<noteq> []" by code_simp
  ultimately have g: "generate_drawio_diagram py_float ex_nan_pins = Inr ex_nan_pins_diagram"
    unfolding ex_nan_pins_diagram_def by (rule generate_ok)
  have p: "map pin (box_pins (snd (left_boxes ex_nan_pins_diagram ! 0)))
      = [''3'', ''+nan'', ''1'', ''2'', ''Z'']"
    by code_simp
  have f: "map py_float [''3'', ''+nan'', ''1'', ''2'', ''Z'']
        = [Some (Num 3), Some NaN, Some (Num 1), Some (Num 2), None]"
    by code_simp
  have n: "\<not> float_le (Num 3) (Num 1)" by (simp add: float_le_def)
  show ?thesis by (intro conjI) (fact g p f n)+
qed

text \<open>
  In a box none of whose pin labels reads as NaN, the order holds: whenever a later pin
  reads as a number, the earlier pin reads as a number too, and as one not greater;
  whenever an earlier pin does not read as a number, the later pin does not either and is
  not smaller as a string.
\<close>

theorem pins_sorted:
  assumes "generate_drawio_diagram to_float t = Inr d"
    and "b \<in> snd ` set (left_boxes d) \<union> snd ` set (right_boxes d)"
    and "\<forall>p \<in> set (box_pins b). to_float (pin p) \<noteq> Some NaN"
    and "i < j" and "j < length (box_pins b)"
  shows "(\<forall>v. to_float (pin (box_pins b ! j)) = Some v \<longrightarrow>
            (\<exists>u. to_float (pin (box_pins b ! i)) = Some u \<and> float_le u v))
       \<and> (to_float (pin (box_pins b ! i)) = None \<longrightarrow>
            to_float (pin (box_pins b ! j)) = None \<and> pin (box_pins b ! i) \<le> pin (box_pins b ! j))"
proof -
  let ?ix = "build_index (filter_rows (rows t))"
  from assms(1,2) have "made_from to_float (left_connectors ?ix) margin_x b
      \<or> made_from to_float (right_connectors ?ix) right_x b"
    using render_boxes_made [of b to_float ?ix] generate_Inr by blast
  then have "sorted (map (key_rank \<circ> sort_key to_float) (map pin (box_pins b)))"
    using made_from_sorted assms(3) by blast
  with assms(4,5) have "map (key_rank \<circ> sort_key to_float) (map pin (box_pins b)) ! i
      \<le> map (key_rank \<circ> sort_key to_float) (map pin (box_pins b)) ! j"
    by (intro sorted_nth_mono) simp_all
  with assms(4,5) have le: "key_rank (sort_key to_float (pin (box_pins b ! i)))
      \<le> key_rank (sort_key to_float (pin (box_pins b ! j)))"
    by simp
  from assms(4,5) have "box_pins b ! i \<in> set (box_pins b)" and "box_pins b ! j \<in> set (box_pins b)"
    by simp_all
  with assms(3) have "to_float (pin (box_pins b ! i)) \<noteq> Some NaN"
    and "to_float (pin (box_pins b ! j)) \<noteq> Some NaN"
    by blast+
  with le show ?thesis by (rule sort_key_le)
qed

theorem pins_sorted_witness:
  "generate_drawio_diagram py_float ex_pins = Inr ex_pins_diagram
   \<and> map pin (box_pins (snd (left_boxes ex_pins_diagram ! 0))) = [''2'', ''10'', ''AUX'', ''SHIELD'']
   \<and> py_float (pin (box_pins (snd (left_boxes ex_pins_diagram ! 0)) ! 1)) = Some (Num 10)
   \<and> (\<exists>u. py_float (pin (box_pins (snd (left_boxes ex_pins_diagram ! 0)) ! 0)) = Some u
          \<and> float_le u (Num 10))
   \<and> py_float (pin (box_pins (snd (left_boxes ex_pins_diagram ! 0)) ! 2)) = None
   \<and> py_float (pin (box_pins (snd (left_boxes ex_pins_diagram ! 0)) ! 3)) = None
   \<and> pin (box_pins (snd (left_boxes ex_pins_diagram ! 0)) ! 2)
        \<le> pin (box_pins (snd (left_boxes ex_pins_diagram ! 0)) ! 3)"
proof -
  let ?b = "snd (left_boxes ex_pins_diagram ! 0)"
  have all: "map (map pin \<circ> box_pins \<circ> snd) (left_boxes ex_pins_diagram)
      = [[''2'', ''10'', ''AUX'', ''SHIELD'']]"
    by code_simp
  from arg_cong [OF all, of length] have n: "length (left_boxes ex_pins_diagram) = 1" by simp
  then have b: "?b \<in> snd ` set (left_boxes ex_pins_diagram) \<union> snd ` set (right_boxes ex_pins_diagram)"
    by simp
  from arg_cong [OF all, of "\<lambda>xs. xs ! 0"] n
  have pins: "map pin (box_pins ?b) = [''2'', ''10'', ''AUX'', ''SHIELD'']" by simp
  from arg_cong [OF pins, of length] have len: "length (box_pins ?b) = 4" by simp
  have p1: "pin (box_pins ?b ! 1) = ''10''"
    using arg_cong [OF pins, of "\<lambda>xs. xs ! 1"] len by simp
  have p2: "pin (box_pins ?b ! 2) = ''AUX''"
    using arg_cong [OF pins, of "\<lambda>xs. xs ! 2"] len by simp
  have "\<forall>l \<in> set [''2'', ''10'', ''AUX'', ''SHIELD'']. py_float l \<noteq> Some NaN" by code_simp
  then have "\<forall>l \<in> set (map pin (box_pins ?b)). py_float l \<noteq> Some NaN" by (simp only: pins)
  then have nn: "\<forall>p \<in> set (box_pins ?b). py_float (pin p) \<noteq> Some NaN" by simp
  from len have l1: "1 < length (box_pins ?b)" and l3: "3 < length (box_pins ?b)" by simp_all
  have "py_float ''10'' = Some (Num 10)" by code_simp
  with p1 have v1: "py_float (pin (box_pins ?b ! 1)) = Some (Num 10)" by simp
  have "py_float ''AUX'' = None" by code_simp
  with p2 have v2: "py_float (pin (box_pins ?b ! 2)) = None" by simp
  have lt01: "(0::nat) < 1" by simp
  have lt23: "(2::nat) < 3" by simp
  from pins_sorted [OF ex_pins_generate b nn lt01 l1] v1
  have u: "\<exists>u. py_float (pin (box_pins ?b ! 0)) = Some u \<and> float_le u (Num 10)" by blast
  from pins_sorted [OF ex_pins_generate b nn lt23 l3] v2
  have w: "py_float (pin (box_pins ?b ! 3)) = None \<and> pin (box_pins ?b ! 2) \<le> pin (box_pins ?b ! 3)"
    by blast
  from w have w1: "py_float (pin (box_pins ?b ! 3)) = None"
    and w2: "pin (box_pins ?b ! 2) \<le> pin (box_pins ?b ! 3)" by blast+
  show ?thesis
    by (intro conjI) (fact ex_pins_generate pins v1 u v2 w1 w2)+
qed

text \<open>
  C5. A signal is invalid exactly when, trimmed and lowercased, it is one of the listed
  spellings (the empty one among them). A row of the filtered frame whose two signals are
  both invalid leaves the index as it was, so it adds no pin entry, no connector and no
  connection; in the diagram every box has pins, every pin has entries, none of them with
  the position of that row, and no wire carries the position of that row.
\<close>

theorem both_invalid_contributes_nothing:
  assumes "generate_drawio_diagram to_float t = Inr d"
    and "i < length (filter_rows (rows t))"
    and "row = read_row (filter_rows (rows t) ! i)"
    and "lower (strip (signal1 row)) \<in> set invalid_signals"
    and "lower (strip (signal2 row)) \<in> set invalid_signals"
  shows "index_row (i, row) st = st
       \<and> (\<forall>b \<in> snd ` set (left_boxes d) \<union> snd ` set (right_boxes d).
            box_pins b \<noteq> [] \<and> (\<forall>p \<in> set (box_pins b). pin_connections p \<noteq> [] \<and>
              (\<forall>e \<in> set (pin_connections p). entry_row_idx e \<noteq> i)))
       \<and> (\<forall>w \<in> set (wires d). row_idx (wire_conn w) \<noteq> i)"
proof -
  let ?df = "filter_rows (rows t)"
  have d: "d = render to_float (build_index ?df)" by (rule generate_Inr [OF assms(1)])
  from assms(3,4,5) have v1: "\<not> is_valid_signal (signal1 (read_row (?df ! i)))"
    and v2: "\<not> is_valid_signal (signal2 (read_row (?df ! i)))"
    by (simp_all add: invalid_signal_iff)
  have 1: "index_row (i, row) st = st"
    using v1 v2 assms(3) by (simp add: index_row_def Let_def)
  have 2: "\<forall>b \<in> snd ` set (left_boxes d) \<union> snd ` set (right_boxes d).
            box_pins b \<noteq> [] \<and> (\<forall>p \<in> set (box_pins b). pin_connections p \<noteq> [] \<and>
              (\<forall>e \<in> set (pin_connections p). entry_row_idx e \<noteq> i))"
  proof
    fix b assume "b \<in> snd ` set (left_boxes d) \<union> snd ` set (right_boxes d)"
    then consider "b \<in> snd ` set (left_boxes d)" | "b \<in> snd ` set (right_boxes d)" by blast
    then show "box_pins b \<noteq> [] \<and> (\<forall>p \<in> set (box_pins b). pin_connections p \<noteq> [] \<and>
              (\<forall>e \<in> set (pin_connections p). entry_row_idx e \<noteq> i))"
    proof cases
      case 1
      from left_box_entries [OF 1 [unfolded d]] v1 show ?thesis by blast
    next
      case 2
      from right_box_entries [OF 2 [unfolded d]] v2 show ?thesis by blast
    qed
  qed
  have 3: "\<forall>w \<in> set (wires d). row_idx (wire_conn w) \<noteq> i"
  proof
    fix w assume "w \<in> set (wires d)"
    from wire_row [OF this [unfolded d]] v1 show "row_idx (wire_conn w) \<noteq> i" by blast
  qed
  from 1 2 3 show ?thesis by blast
qed

theorem both_invalid_contributes_nothing_witness:
  "generate_drawio_diagram py_float ex_nc = Inr ex_nc_diagram
   \<and> 1 < length (filter_rows (rows ex_nc))
   \<and> lower (strip (signal1 (read_row (filter_rows (rows ex_nc) ! 1)))) \<in> set invalid_signals
   \<and> lower (strip (signal2 (read_row (filter_rows (rows ex_nc) ! 1)))) \<in> set invalid_signals
   \<and> index_row (1, read_row (filter_rows (rows ex_nc) ! 1)) empty_index = empty_index
   \<and> box_pins (snd (left_boxes ex_nc_diagram ! 0)) \<noteq> []
   \<and> entry_row_idx (pin_connections (box_pins (snd (left_boxes ex_nc_diagram ! 0)) ! 0) ! 0) \<noteq> 1
   \<and> row_idx (wire_conn (wires ex_nc_diagram ! 0)) \<noteq> 1
   \<and> length (wires ex_nc_diagram) = 1"
proof -
  let ?b = "snd (left_boxes ex_nc_diagram ! 0)"
  have a: "1 < length (filter_rows (rows ex_nc))" by code_simp
  have b: "lower (strip (signal1 (read_row (filter_rows (rows ex_nc) ! 1)))) \<in> set invalid_signals"
    by code_simp
  have c: "lower (strip (signal2 (read_row (filter_rows (rows ex_nc) ! 1)))) \<in> set invalid_signals"
    by code_simp
  have n: "length (wires ex_nc_diagram) = 1" by code_simp
  have lb: "0 < length (left_boxes ex_nc_diagram)" by code_simp
  note t = both_invalid_contributes_nothing [OF ex_nc_generate a refl b c, of empty_index]
  from lb have bm: "?b \<in> snd ` set (left_boxes ex_nc_diagram) \<union> snd ` set (right_boxes ex_nc_diagram)"
    by simp
  from t bm have pb: "box_pins ?b \<noteq> [] \<and> (\<forall>p \<in> set (box_pins ?b). pin_connections p \<noteq> [] \<and>
           (\<forall>e \<in> set (pin_connections p). entry_row_idx e \<noteq> 1))"
    by blast
  then have "box_pins ?b ! 0 \<in> set (box_pins ?b)" by simp
  with pb have pc: "pin_connections (box_pins ?b ! 0) \<noteq> [] \<and>
           (\<forall>e \<in> set (pin_connections (box_pins ?b ! 0)). entry_row_idx e \<noteq> 1)"
    by blast
  then have "pin_connections (box_pins ?b ! 0) ! 0 \<in> set (pin_connections (box_pins ?b ! 0))"
    by simp
  with pc have e: "entry_row_idx (pin_connections (box_pins ?b ! 0) ! 0) \<noteq> 1" by blast
  from n have "wires ex_nc_diagram ! 0 \<in> set (wires ex_nc_diagram)" by simp
  with t have w: "row_idx (wire_conn (wires ex_nc_diagram ! 0)) \<noteq> 1" by blast
  from t have i: "index_row (1, read_row (filter_rows (rows ex_nc) ! 1)) empty_index = empty_index"
    by blast
  from pb have p: "box_pins ?b \<noteq> []" by blast
  show ?thesis
    by (intro conjI) (fact ex_nc_generate a b c i p e w n)+
qed

text \<open>
  C7. The claim fails where two connectors of a side have the same key. In the example the
  first row has a signal on the left only, at pin \<open>1\<close> of connector \<open>B:C\<close> of module \<open>A\<close>;
  the second row is on connector \<open>C\<close> of module \<open>A:B\<close>. The index keeps the two connectors
  apart and holds the entry of the first row, but both get the key \<open>A:B:C\<close> (line 286), the
  second box replaces the first under it (line 311), and no box of the diagram has a pin
  entry of the first row.
\<close>

theorem colliding_keys_lose_pin:
  "generate_drawio_diagram py_float ex_collide = Inr ex_collide_diagram
   \<and> is_valid_signal (signal1 (read_row (filter_rows (rows ex_collide) ! 0)))
   \<and> \<not> is_valid_signal (signal2 (read_row (filter_rows (rows ex_collide) ! 0)))
   \<and> \<lparr>signal = ''GPIO3'', entry_row_idx = 0\<rparr>
        \<in> set (entries (left_connectors ex_collide_index) ''A'' ''B:C'' ''1'')
   \<and> map fst (left_boxes ex_collide_diagram) = [''A:B:C'']
   \<and> map (box_module \<circ> snd) (left_boxes ex_collide_diagram) = [''A:B'']
   \<and> map entry_row_idx (concat (map pin_connections
        (concat (map (box_pins \<circ> snd) (left_boxes ex_collide_diagram))))) = [1]
   \<and> map entry_row_idx (concat (map pin_connections
        (concat (map (box_pins \<circ> snd) (right_boxes ex_collide_diagram))))) = [1]"
proof -
  have "missing_cols ex_collide = []" by code_simp
  moreover have "filter_rows (rows ex_collide) \<noteq> []" by code_simp
  ultimately have g: "generate_drawio_diagram py_float ex_collide = Inr ex_collide_diagram"
    unfolding ex_collide_diagram_def ex_collide_index_def by (rule generate_ok)
  have a: "is_valid_signal (signal1 (read_row (filter_rows (rows ex_collide) ! 0)))" by code_simp
  have b: "\<not> is_valid_signal (signal2 (read_row (filter_rows (rows ex_collide) ! 0)))" by code_simp
  have e: "\<lparr>signal = ''GPIO3'', entry_row_idx = 0\<rparr>
        \<in> set (entries (left_connectors ex_collide_index) ''A'' ''B:C'' ''1'')"
    by code_simp
  have k: "map fst (left_boxes ex_collide_diagram) = [''A:B:C'']" by code_simp
  have m: "map (box_module \<circ> snd) (left_boxes ex_collide_diagram) = [''A:B'']" by code_simp
  have l: "map entry_row_idx (concat (map pin_connections
        (concat (map (box_pins \<circ> snd) (left_boxes ex_collide_diagram))))) = [1]"
    by code_simp
  have r: "map entry_row_idx (concat (map pin_connections
        (concat (map (box_pins \<circ> snd) (right_boxes ex_collide_diagram))))) = [1]"
    by code_simp
  show ?thesis by (intro conjI) (fact g a b e k m l r)+
qed

text \<open>
  Apart from that the claim holds. A row of the filtered frame with a valid signal on one
  side only gets a pin entry in the index of that side, under its module, connector and
  pin; the index of the other side, and so every box of the other side, has no entry with
  the position of that row; and no wire carries the position of that row.
\<close>

theorem one_sided_record:
  assumes "generate_drawio_diagram to_float t = Inr d"
    and "ix = build_index (filter_rows (rows t))"
    and "i < length (filter_rows (rows t))"
    and "row = read_row (filter_rows (rows t) ! i)"
  shows "(is_valid_signal (signal1 row) \<and> \<not> is_valid_signal (signal2 row) \<longrightarrow>
            \<lparr>signal = signal1 row, entry_row_idx = i\<rparr>
               \<in> set (entries (left_connectors ix) (mod1 row) (conn1 row) (pin1 row))
          \<and> (\<forall>m c p. \<forall>e \<in> set (entries (right_connectors ix) m c p). entry_row_idx e \<noteq> i)
          \<and> (\<forall>b \<in> snd ` set (right_boxes d). \<forall>p \<in> set (box_pins b).
                \<forall>e \<in> set (pin_connections p). entry_row_idx e \<noteq> i)
          \<and> (\<forall>w \<in> set (wires d). row_idx (wire_conn w) \<noteq> i))
       \<and> (\<not> is_valid_signal (signal1 row) \<and> is_valid_signal (signal2 row) \<longrightarrow>
            \<lparr>signal = signal2 row, entry_row_idx = i\<rparr>
               \<in> set (entries (right_connectors ix) (mod2 row) (conn2 row) (pin2 row))
          \<and> (\<forall>m c p. \<forall>e \<in> set (entries (left_connectors ix) m c p). entry_row_idx e \<noteq> i)
          \<and> (\<forall>b \<in> snd ` set (left_boxes d). \<forall>p \<in> set (box_pins b).
                \<forall>e \<in> set (pin_connections p). entry_row_idx e \<noteq> i)
          \<and> (\<forall>w \<in> set (wires d). row_idx (wire_conn w) \<noteq> i))"
proof -
  let ?df = "filter_rows (rows t)"
  have d: "d = render to_float (build_index ?df)" by (rule generate_Inr [OF assms(1)])
  have mem: "(i, row) \<in> set (iterrows ?df)"
    using iterrows_memI [OF assms(3)] assms(4) by simp
  have row: "read_row (?df ! i) = row" using assms(4) by simp
  have left: "\<lparr>signal = signal1 row, entry_row_idx = i\<rparr>
               \<in> set (entries (left_connectors ix) (mod1 row) (conn1 row) (pin1 row))"
    if "is_valid_signal (signal1 row)"
    unfolding assms(2) build_index_def by (rule fold_index_row_left [OF mem that])
  have right: "\<lparr>signal = signal2 row, entry_row_idx = i\<rparr>
               \<in> set (entries (right_connectors ix) (mod2 row) (conn2 row) (pin2 row))"
    if "is_valid_signal (signal2 row)"
    unfolding assms(2) build_index_def by (rule fold_index_row_right [OF mem that])
  have no_right: "\<forall>m c p. \<forall>e \<in> set (entries (right_connectors ix) m c p). entry_row_idx e \<noteq> i"
    if "\<not> is_valid_signal (signal2 row)"
    using right_entry_row [where df = ?df] that row unfolding assms(2) by blast
  have no_left: "\<forall>m c p. \<forall>e \<in> set (entries (left_connectors ix) m c p). entry_row_idx e \<noteq> i"
    if "\<not> is_valid_signal (signal1 row)"
    using left_entry_row [where df = ?df] that row unfolding assms(2) by blast
  have no_right_box: "\<forall>b \<in> snd ` set (right_boxes d). \<forall>p \<in> set (box_pins b).
                \<forall>e \<in> set (pin_connections p). entry_row_idx e \<noteq> i"
    if "\<not> is_valid_signal (signal2 row)"
    using right_box_entries [where df = ?df and to_float = to_float] that row unfolding d by blast
  have no_left_box: "\<forall>b \<in> snd ` set (left_boxes d). \<forall>p \<in> set (box_pins b).
                \<forall>e \<in> set (pin_connections p). entry_row_idx e \<noteq> i"
    if "\<not> is_valid_signal (signal1 row)"
    using left_box_entries [where df = ?df and to_float = to_float] that row unfolding d by blast
  have no_wire: "\<forall>w \<in> set (wires d). row_idx (wire_conn w) \<noteq> i"
    if "\<not> is_valid_signal (signal1 row) \<or> \<not> is_valid_signal (signal2 row)"
    using wire_row [where df = ?df and to_float = to_float] that row unfolding d by blast
  from left right no_right no_left no_right_box no_left_box no_wire show ?thesis by blast
qed

theorem one_sided_record_witness:
  "generate_drawio_diagram py_float ex_nc = Inr ex_nc_diagram
   \<and> 2 < length (filter_rows (rows ex_nc))
   \<and> is_valid_signal (signal1 (read_row (filter_rows (rows ex_nc) ! 2)))
   \<and> \<not> is_valid_signal (signal2 (read_row (filter_rows (rows ex_nc) ! 2)))
   \<and> \<lparr>signal = ''GPIO3'', entry_row_idx = 2\<rparr>
        \<in> set (entries (left_connectors (build_index (filter_rows (rows ex_nc)))) ''ModA'' ''Con1'' ''3'')
   \<and> entry_row_idx (pin_connections (box_pins (snd (right_boxes ex_nc_diagram ! 0)) ! 0) ! 0) \<noteq> 2
   \<and> row_idx (wire_conn (wires ex_nc_diagram ! 0)) \<noteq> 2
   \<and> map pin (box_pins (snd (left_boxes ex_nc_diagram ! 0))) = [''1'', ''3'']
   \<and> map pin (box_pins (snd (right_boxes ex_nc_diagram ! 0))) = [''1'']"
proof -
  let ?rb = "snd (right_boxes ex_nc_diagram ! 0)"
  have a: "2 < length (filter_rows (rows ex_nc))" by code_simp
  have b: "is_valid_signal (signal1 (read_row (filter_rows (rows ex_nc) ! 2)))" by code_simp
  have c: "\<not> is_valid_signal (signal2 (read_row (filter_rows (rows ex_nc) ! 2)))" by code_simp
  have r: "read_row (filter_rows (rows ex_nc) ! 2)
     = \<lparr>mod1 = ''ModA'', conn1 = ''Con1'', pin1 = ''3'', signal1 = ''GPIO3'',
        mod2 = ''ModB'', conn2 = ''Con2'', pin2 = ''3'', signal2 = ''NC''\<rparr>"
    by code_simp
  have l: "map pin (box_pins (snd (left_boxes ex_nc_diagram ! 0))) = [''1'', ''3'']" by code_simp
  have rr: "map pin (box_pins ?rb) = [''1'']" by code_simp
  have n1: "0 < length (right_boxes ex_nc_diagram)" by code_simp
  have n2: "0 < length (box_pins ?rb)" by code_simp
  have n3: "0 < length (pin_connections (box_pins ?rb ! 0))" by code_simp
  have n4: "0 < length (wires ex_nc_diagram)" by code_simp
  from n1 have m1: "?rb \<in> snd ` set (right_boxes ex_nc_diagram)" by simp
  from n2 have m2: "box_pins ?rb ! 0 \<in> set (box_pins ?rb)" by simp
  from n3 have m3: "pin_connections (box_pins ?rb ! 0) ! 0 \<in> set (pin_connections (box_pins ?rb ! 0))"
    by simp
  from n4 have m4: "wires ex_nc_diagram ! 0 \<in> set (wires ex_nc_diagram)" by simp
  from one_sided_record [OF ex_nc_generate refl a refl] b c
  have t: "\<lparr>signal = signal1 (read_row (filter_rows (rows ex_nc) ! 2)), entry_row_idx = 2\<rparr>
               \<in> set (entries (left_connectors (build_index (filter_rows (rows ex_nc))))
                   (mod1 (read_row (filter_rows (rows ex_nc) ! 2)))
                   (conn1 (read_row (filter_rows (rows ex_nc) ! 2)))
                   (pin1 (read_row (filter_rows (rows ex_nc) ! 2))))
      \<and> (\<forall>b \<in> snd ` set (right_boxes ex_nc_diagram). \<forall>p \<in> set (box_pins b).
         \<forall>e \<in> set (pin_connections p). entry_row_idx e \<noteq> 2)
      \<and> (\<forall>w \<in> set (wires ex_nc_diagram). row_idx (wire_conn w) \<noteq> 2)"
    by blast
  from t r have e: "\<lparr>signal = ''GPIO3'', entry_row_idx = 2\<rparr>
        \<in> set (entries (left_connectors (build_index (filter_rows (rows ex_nc)))) ''ModA'' ''Con1'' ''3'')"
    by simp
  from t m1 m2 m3
  have x: "entry_row_idx (pin_connections (box_pins ?rb ! 0) ! 0) \<noteq> 2" by blast
  from t m4 have w: "row_idx (wire_conn (wires ex_nc_diagram ! 0)) \<noteq> 2" by blast
  show ?thesis
    by (intro conjI) (fact ex_nc_generate a b c e x w l rr)+
qed

text \<open>
  And the entry reaches the diagram: a row with a valid signal on a side has, in the box
  under the key of its connector on that side, a pin with its label that lists the row,
  provided no other connector of that side has the same key. For a row with a signal on
  the right only, it is the last loop (lines 394--435) that places the box.
\<close>

theorem valid_side_pin_rendered:
  assumes "generate_drawio_diagram to_float t = Inr d"
    and "ix = build_index (filter_rows (rows t))"
    and "i < length (filter_rows (rows t))"
    and "row = read_row (filter_rows (rows t) ! i)"
  shows "(is_valid_signal (signal1 row) \<and> own_key (left_connectors ix) (mod1 row) (conn1 row) \<longrightarrow>
            (\<exists>b q. (key_of (mod1 row) (conn1 row), b) \<in> set (left_boxes d)
                \<and> box_module b = mod1 row \<and> box_connector b = conn1 row
                \<and> q \<in> set (box_pins b) \<and> pin q = pin1 row
                \<and> \<lparr>signal = signal1 row, entry_row_idx = i\<rparr> \<in> set (pin_connections q)))
       \<and> (is_valid_signal (signal2 row) \<and> own_key (right_connectors ix) (mod2 row) (conn2 row) \<longrightarrow>
            (\<exists>b q. (key_of (mod2 row) (conn2 row), b) \<in> set (right_boxes d)
                \<and> box_module b = mod2 row \<and> box_connector b = conn2 row
                \<and> q \<in> set (box_pins b) \<and> pin q = pin2 row
                \<and> \<lparr>signal = signal2 row, entry_row_idx = i\<rparr> \<in> set (pin_connections q)))"
proof -
  let ?df = "filter_rows (rows t)"
  let ?lay = "final_layout to_float ix"
  have d: "d = render to_float ix" using generate_Inr [OF assms(1)] assms(2) by simp
  have lb: "left_boxes d = left_positions ?lay" and rb: "right_boxes d = right_positions ?lay"
    by (simp_all add: d render_boxes)
  have mem: "(i, row) \<in> set (iterrows ?df)"
    using iterrows_memI [OF assms(3)] assms(4) by simp
  have made: "all_made to_float (left_connectors ix) margin_x (left_positions ?lay)"
    "all_made to_float (right_connectors ix) right_x (right_positions ?lay)"
    using final_layout_made [of to_float ix] by (simp_all add: layout_made_def)
  have left: "\<exists>b q. (key_of (mod1 row) (conn1 row), b) \<in> set (left_boxes d)
                \<and> box_module b = mod1 row \<and> box_connector b = conn1 row
                \<and> q \<in> set (box_pins b) \<and> pin q = pin1 row
                \<and> \<lparr>signal = signal1 row, entry_row_idx = i\<rparr> \<in> set (pin_connections q)"
    if v: "is_valid_signal (signal1 row)" and o: "own_key (left_connectors ix) (mod1 row) (conn1 row)"
  proof -
    have e: "\<lparr>signal = signal1 row, entry_row_idx = i\<rparr>
               \<in> set (entries (left_connectors ix) (mod1 row) (conn1 row) (pin1 row))"
      unfolding assms(2) build_index_def by (rule fold_index_row_left [OF mem v])
    from entries_names [OF e] have "(mod1 row, conn1 row) \<in> set (left_order to_float ix)"
      by (simp add: left_order_mem)
    then have "cand_key (mod1 row, conn1 row) \<in> fst ` set (left_positions ?lay)"
      by (simp only: final_left_keys) (rule imageI)
    then have k: "key_of (mod1 row) (conn1 row) \<in> fst ` set (left_positions ?lay)"
      by (simp add: cand_key_def)
    from keyed_pin [OF made(1) k o e] show ?thesis by (simp only: lb)
  qed
  have right: "\<exists>b q. (key_of (mod2 row) (conn2 row), b) \<in> set (right_boxes d)
                \<and> box_module b = mod2 row \<and> box_connector b = conn2 row
                \<and> q \<in> set (box_pins b) \<and> pin q = pin2 row
                \<and> \<lparr>signal = signal2 row, entry_row_idx = i\<rparr> \<in> set (pin_connections q)"
    if v: "is_valid_signal (signal2 row)" and o: "own_key (right_connectors ix) (mod2 row) (conn2 row)"
  proof -
    have e: "\<lparr>signal = signal2 row, entry_row_idx = i\<rparr>
               \<in> set (entries (right_connectors ix) (mod2 row) (conn2 row) (pin2 row))"
      unfolding assms(2) build_index_def by (rule fold_index_row_right [OF mem v])
    from entries_names [OF e] have "(mod2 row, conn2 row) \<in> set (right_order ix)"
      by (simp add: right_order_mem)
    then have "cand_key (mod2 row, conn2 row) \<in> cand_key ` set (right_order ix)" by (rule imageI)
    with final_right_keys [of ix to_float]
    have "cand_key (mod2 row, conn2 row) \<in> fst ` set (right_positions ?lay)" by blast
    then have k: "key_of (mod2 row) (conn2 row) \<in> fst ` set (right_positions ?lay)"
      by (simp add: cand_key_def)
    from keyed_pin [OF made(2) k o e] show ?thesis by (simp only: rb)
  qed
  from left right show ?thesis by blast
qed

theorem valid_side_pin_rendered_witness:
  "generate_drawio_diagram py_float ex_one_sided = Inr ex_one_sided_diagram
   \<and> is_valid_signal (signal1 (read_row (filter_rows (rows ex_one_sided) ! 0)))
   \<and> \<not> is_valid_signal (signal2 (read_row (filter_rows (rows ex_one_sided) ! 0)))
   \<and> own_key (left_connectors ex_one_sided_index) ''ModA'' ''Con1''
   \<and> (\<exists>b q. (''ModA:Con1'', b) \<in> set (left_boxes ex_one_sided_diagram)
          \<and> q \<in> set (box_pins b) \<and> pin q = ''1''
          \<and> \<lparr>signal = ''GPIO3'', entry_row_idx = 0\<rparr> \<in> set (pin_connections q))
   \<and> \<not> is_valid_signal (signal1 (read_row (filter_rows (rows ex_one_sided) ! 1)))
   \<and> is_valid_signal (signal2 (read_row (filter_rows (rows ex_one_sided) ! 1)))
   \<and> own_key (right_connectors ex_one_sided_index) ''ModD'' ''Con4''
   \<and> (\<exists>b q. (''ModD:Con4'', b) \<in> set (right_boxes ex_one_sided_diagram)
          \<and> q \<in> set (box_pins b) \<and> pin q = ''2''
          \<and> \<lparr>signal = ''RX'', entry_row_idx = 1\<rparr> \<in> set (pin_connections q))
   \<and> wires ex_one_sided_diagram = []"
proof -
  let ?r0 = "read_row (filter_rows (rows ex_one_sided) ! 0)"
  let ?r1 = "read_row (filter_rows (rows ex_one_sided) ! 1)"
  note g = ex_one_sided_generate
  have a0: "0 < length (filter_rows (rows ex_one_sided))" by code_simp
  have a1: "1 < length (filter_rows (rows ex_one_sided))" by code_simp
  have r0: "?r0 = \<lparr>mod1 = ''ModA'', conn1 = ''Con1'', pin1 = ''1'', signal1 = ''GPIO3'',
        mod2 = ''ModB'', conn2 = ''Con2'', pin2 = ''1'', signal2 = ''NC''\<rparr>"
    by code_simp
  have r1: "?r1 = \<lparr>mod1 = ''ModC'', conn1 = ''Con3'', pin1 = ''2'', signal1 = ''n/c'',
        mod2 = ''ModD'', conn2 = ''Con4'', pin2 = ''2'', signal2 = ''RX''\<rparr>"
    by code_simp
  have v0: "is_valid_signal (signal1 ?r0)" by code_simp
  have n0: "\<not> is_valid_signal (signal2 ?r0)" by code_simp
  have n1: "\<not> is_valid_signal (signal1 ?r1)" by code_simp
  have v1: "is_valid_signal (signal2 ?r1)" by code_simp
  have "\<forall>mc \<in> set (left_order py_float ex_one_sided_index).
          cand_key mc = key_of ''ModA'' ''Con1'' \<longrightarrow> mc = (''ModA'', ''Con1'')"
    by code_simp
  then have o0: "own_key (left_connectors ex_one_sided_index) ''ModA'' ''Con1''"
    by (rule own_key_left)
  have "\<forall>mc \<in> set (right_order ex_one_sided_index).
          cand_key mc = key_of ''ModD'' ''Con4'' \<longrightarrow> mc = (''ModD'', ''Con4'')"
    by code_simp
  then have o1: "own_key (right_connectors ex_one_sided_index) ''ModD'' ''Con4''"
    by (rule own_key_right)
  have k0: "key_of ''ModA'' ''Con1'' = ''ModA:Con1''" by code_simp
  have k1: "key_of ''ModD'' ''Con4'' = ''ModD:Con4''" by code_simp
  have w: "wires ex_one_sided_diagram = []" by code_simp
  from o0 r0 have o0': "own_key (left_connectors ex_one_sided_index) (mod1 ?r0) (conn1 ?r0)" by simp
  from o1 r1 have o1': "own_key (right_connectors ex_one_sided_index) (mod2 ?r1) (conn2 ?r1)" by simp
  from valid_side_pin_rendered [OF g ex_one_sided_index_def a0 refl] v0 o0'
  have "\<exists>b q. (key_of (mod1 ?r0) (conn1 ?r0), b) \<in> set (left_boxes ex_one_sided_diagram)
                \<and> box_module b = mod1 ?r0 \<and> box_connector b = conn1 ?r0
                \<and> q \<in> set (box_pins b) \<and> pin q = pin1 ?r0
                \<and> \<lparr>signal = signal1 ?r0, entry_row_idx = 0\<rparr> \<in> set (pin_connections q)"
    by blast
  then have p0: "\<exists>b q. (''ModA:Con1'', b) \<in> set (left_boxes ex_one_sided_diagram)
          \<and> q \<in> set (box_pins b) \<and> pin q = ''1''
          \<and> \<lparr>signal = ''GPIO3'', entry_row_idx = 0\<rparr> \<in> set (pin_connections q)"
    unfolding r0 by (simp add: k0) blast
  from valid_side_pin_rendered [OF g ex_one_sided_index_def a1 refl] v1 o1'
  have "\<exists>b q. (key_of (mod2 ?r1) (conn2 ?r1), b) \<in> set (right_boxes ex_one_sided_diagram)
                \<and> box_module b = mod2 ?r1 \<and> box_connector b = conn2 ?r1
                \<and> q \<in> set (box_pins b) \<and> pin q = pin2 ?r1
                \<and> \<lparr>signal = signal2 ?r1, entry_row_idx = 1\<rparr> \<in> set (pin_connections q)"
    by blast
  then have p1: "\<exists>b q. (''ModD:Con4'', b) \<in> set (right_boxes ex_one_sided_diagram)
          \<and> q \<in> set (box_pins b) \<and> pin q = ''2''
          \<and> \<lparr>signal = ''RX'', entry_row_idx = 1\<rparr> \<in> set (pin_connections q)"
    unfolding r1 by (simp add: k1) blast
  show ?thesis by (intro conjI) (fact g v0 n0 o0 p0 n1 v1 o1 p1 w)+
qed

text \<open>
  C10. When no LEFT module is named like a key \<open>module:connector\<close> of the provisional LEFT
  placement, the center of mass computed for every LEFT module is 0, and the sorted order
  of the LEFT modules is the order in which the modules first appear among the rows of the
  filtered frame that have a valid source signal.
\<close>

theorem order_without_center:
  assumes "ix = build_index df"
    and "\<forall>m \<in> set (map fst (left_connectors ix)).
           m \<notin> set (map fst (calculate_initial_positions to_float (left_connectors ix) True))"
  shows "(\<forall>mc \<in> set (left_modules to_float ix). snd mc = 0)
       \<and> sorted_left_modules to_float ix
           = first_appearance (map (mod1 \<circ> snd)
               (filter (\<lambda>ir. is_valid_signal (signal1 (snd ir))) (iterrows df)))"
proof -
  have z: "\<forall>mc \<in> set (left_modules to_float ix). snd mc = 0"
    using assms(2) by (auto simp add: left_modules_def Let_def calculate_center_of_mass_def)
  then have "List.sort_key snd (left_modules to_float ix) = left_modules to_float ix"
    by (rule sort_key_all_equal)
  then have "sorted_left_modules to_float ix = map fst (left_connectors ix)"
    by (simp add: sorted_left_modules_def) (simp add: left_modules_def Let_def comp_def)
  with z show ?thesis by (simp add: assms(1) build_index_modules)
qed

theorem order_without_center_witness:
  "set (map fst (left_connectors ex_crossed_index))
     \<inter> set (map fst (calculate_initial_positions py_float (left_connectors ex_crossed_index) True)) = {}
   \<and> map snd (left_modules py_float ex_crossed_index) = [0, 0]
   \<and> sorted_left_modules py_float ex_crossed_index = [''LA'', ''LB'']"
proof -
  have h: "\<forall>m \<in> set (map fst (left_connectors ex_crossed_index)).
      m \<notin> set (map fst (calculate_initial_positions py_float (left_connectors ex_crossed_index) True))"
    by code_simp
  then have h': "set (map fst (left_connectors ex_crossed_index))
     \<inter> set (map fst (calculate_initial_positions py_float (left_connectors ex_crossed_index) True)) = {}"
    by blast
  have f: "first_appearance (map (mod1 \<circ> snd)
             (filter (\<lambda>ir. is_valid_signal (signal1 (snd ir)))
                (iterrows (filter_rows (rows ex_crossed))))) = [''LA'', ''LB'']"
    by code_simp
  have n: "length (left_modules py_float ex_crossed_index) = 2" by code_simp
  note t = order_without_center [OF ex_crossed_index_def h]
  from t have "\<forall>y \<in> set (map snd (left_modules py_float ex_crossed_index)). y = 0" by simp
  then have "replicate (length (map snd (left_modules py_float ex_crossed_index))) 0
      = map snd (left_modules py_float ex_crossed_index)"
    by (rule replicate_length_same)
  with n have z: "map snd (left_modules py_float ex_crossed_index) = [0, 0]"
    by (simp add: numeral_2_eq_2)
  from t f have s: "sorted_left_modules py_float ex_crossed_index = [''LA'', ''LB'']" by simp
  show ?thesis
    by (intro conjI) (fact h' z s)+
qed

text \<open>
  C1. The claim asks for the mean of the provisional \<open>y\<close> of the RIGHT connectors a LEFT
  module is wired to, and for the LEFT modules in ascending order of that mean. On the
  crossed example the means are 258 for \<open>LA\<close> and 100 for \<open>LB\<close>, yet the computed centers
  are both 0 and \<open>LA\<close> stays first: line 182 looks the module name up among keys of the
  form \<open>module:connector\<close>, finds none, and returns 0 before any connection is read.
\<close>

theorem center_of_mass_not_computed:
  "left_modules py_float ex_crossed_index = [(''LA'', 0), (''LB'', 0)]
   \<and> spec_center_of_mass (connections ex_crossed_index)
        (calculate_initial_positions py_float (right_connectors ex_crossed_index) False) ''LA'' = 258
   \<and> spec_center_of_mass (connections ex_crossed_index)
        (calculate_initial_positions py_float (right_connectors ex_crossed_index) False) ''LB'' = 100
   \<and> sorted_left_modules py_float ex_crossed_index = [''LA'', ''LB'']"
  by code_simp






end
